theory Spec2Isabelle
  imports
    Main
    "HOL-Library.Word"
    "HOL-Library.Char_ord"
    "HOL-Library.List_Lexorder"
    "HOL-Library.Multiset"
begin

unbundle bit_operations_syntax

section \<open>Explanation ids\<close>

text \<open>
  The three scripts each declare their own \<^verbatim>\<open>generateExplanationId\<close>. The incremental sync
  and the ordered full sync call \<^verbatim>\<open>uuidv5(filePath, uuidv5.URL)\<close> of the \<^verbatim>\<open>uuid\<close> package; the
  single-link full sync formats \<^verbatim>\<open>XXH.h64(filePath, 0)\<close> of the \<^verbatim>\<open>xxhashjs\<close> package. Both
  packages are third-party code; they are modelled here after the algorithms they implement
  (RFC 4122 name-based UUIDs over SHA-1, and the XXH64 specification), on strings taken as
  their UTF-8 bytes.
\<close>

type_synonym byte = "8 word"

definition stringToBytes :: "string \<Rightarrow> byte list" where
  "stringToBytes s = map (\<lambda>c. of_nat (of_char c)) s"

fun chunks :: "nat \<Rightarrow> 'a list \<Rightarrow> 'a list list" where
  "chunks n [] = []"
| "chunks n (x # xs) =
     (if n = 0 then [] else take n (x # xs) # chunks n (drop n (x # xs)))"

subsection \<open>SHA-1\<close>

definition be32 :: "byte list \<Rightarrow> 32 word" where
  "be32 bs = foldl (\<lambda>acc b. push_bit 8 acc OR ucast b) 0 (take 4 bs)"

definition word32_bytes :: "32 word \<Rightarrow> byte list" where
  "word32_bytes x =
     [ucast (drop_bit 24 x), ucast (drop_bit 16 x), ucast (drop_bit 8 x), ucast x]"

definition word64_bytes :: "64 word \<Rightarrow> byte list" where
  "word64_bytes x = map (\<lambda>i. ucast (drop_bit (8 * (7 - i)) x)) [0..<8]"

definition sha1_pad :: "byte list \<Rightarrow> byte list" where
  "sha1_pad m =
     m @ [0x80] @ replicate ((119 - length m mod 64) mod 64) 0 @
     word64_bytes (of_nat (8 * length m))"

fun sha1_schedule :: "nat \<Rightarrow> 32 word list \<Rightarrow> 32 word list" where
  "sha1_schedule 0 w = w"
| "sha1_schedule (Suc k) w =
     (let t = length w
      in sha1_schedule k
           (w @ [word_rotl 1 (w ! (t - 3) XOR w ! (t - 8) XOR w ! (t - 14) XOR w ! (t - 16))]))"

definition sha1_f :: "nat \<Rightarrow> 32 word \<Rightarrow> 32 word \<Rightarrow> 32 word \<Rightarrow> 32 word" where
  "sha1_f t b c d =
     (if t < 20 then (b AND c) OR (NOT b AND d)
      else if t < 40 then b XOR c XOR d
      else if t < 60 then (b AND c) OR (b AND d) OR (c AND d)
      else b XOR c XOR d)"

definition sha1_k :: "nat \<Rightarrow> 32 word" where
  "sha1_k t =
     (if t < 20 then 0x5A827999 else if t < 40 then 0x6ED9EBA1
      else if t < 60 then 0x8F1BBCDC else 0xCA62C1D6)"

type_synonym sha1_state = "32 word \<times> 32 word \<times> 32 word \<times> 32 word \<times> 32 word"

fun sha1_round :: "32 word list \<Rightarrow> sha1_state \<Rightarrow> nat \<Rightarrow> sha1_state" where
  "sha1_round w (a, b, c, d, e) t =
     (word_rotl 5 a + sha1_f t b c d + e + sha1_k t + w ! t, a, word_rotl 30 b, c, d)"

fun sha1_block :: "sha1_state \<Rightarrow> byte list \<Rightarrow> sha1_state" where
  "sha1_block (h0, h1, h2, h3, h4) blk =
     (let w = sha1_schedule 64 (map be32 (chunks 4 blk));
          (a, b, c, d, e) = foldl (sha1_round w) (h0, h1, h2, h3, h4) [0..<80]
      in (h0 + a, h1 + b, h2 + c, h3 + d, h4 + e))"

definition sha1 :: "byte list \<Rightarrow> byte list" where
  "sha1 m =
     (case foldl sha1_block (0x67452301, 0xEFCDAB89, 0x98BADCFE, 0x10325476, 0xC3D2E1F0)
             (chunks 64 (sha1_pad m))
      of (h0, h1, h2, h3, h4) \<Rightarrow> concat (map word32_bytes [h0, h1, h2, h3, h4]))"

subsection \<open>uuidv5\<close>

definition hexDigit :: "nat \<Rightarrow> char" where
  "hexDigit n = ''0123456789abcdef'' ! (n mod 16)"

definition byteToHex :: "byte \<Rightarrow> string" where
  "byteToHex b = [hexDigit (unat b div 16), hexDigit (unat b mod 16)]"

definition unsafeStringify :: "byte list \<Rightarrow> string" where
  "unsafeStringify arr =
     byteToHex (arr ! 0) @ byteToHex (arr ! 1) @ byteToHex (arr ! 2) @ byteToHex (arr ! 3) @
     ''-'' @ byteToHex (arr ! 4) @ byteToHex (arr ! 5) @
     ''-'' @ byteToHex (arr ! 6) @ byteToHex (arr ! 7) @
     ''-'' @ byteToHex (arr ! 8) @ byteToHex (arr ! 9) @
     ''-'' @ byteToHex (arr ! 10) @ byteToHex (arr ! 11) @ byteToHex (arr ! 12) @
     byteToHex (arr ! 13) @ byteToHex (arr ! 14) @ byteToHex (arr ! 15)"

text \<open>\<^verbatim>\<open>uuidv5.URL\<close> is the namespace \<^verbatim>\<open>6ba7b811-9dad-11d1-80b4-00c04fd430c8\<close>.\<close>

definition uuidv5_URL :: "byte list" where
  "uuidv5_URL = [0x6b, 0xa7, 0xb8, 0x11, 0x9d, 0xad, 0x11, 0xd1,
                 0x80, 0xb4, 0x00, 0xc0, 0x4f, 0xd4, 0x30, 0xc8]"

text \<open>
  The digest has 20 bytes (lemma \<open>length_sha1\<close>), so the two updates below are in range;
  the string is made of the first 16.
\<close>

definition uuidv5 :: "string \<Rightarrow> byte list \<Rightarrow> string" where
  "uuidv5 v namespace =
     (let bytes = sha1 (namespace @ stringToBytes v);
          bytes = bytes[6 := (bytes ! 6 AND 0x0f) OR 0x50];
          bytes = bytes[8 := (bytes ! 8 AND 0x3f) OR 0x80]
      in unsafeStringify bytes)"

subsection \<open>XXH64\<close>

definition PRIME64_1 :: "64 word" where "PRIME64_1 = 0x9E3779B185EBCA87"
definition PRIME64_2 :: "64 word" where "PRIME64_2 = 0xC2B2AE3D27D4EB4F"
definition PRIME64_3 :: "64 word" where "PRIME64_3 = 0x165667B19E3779F9"
definition PRIME64_4 :: "64 word" where "PRIME64_4 = 0x85EBCA77C2B2AE63"
definition PRIME64_5 :: "64 word" where "PRIME64_5 = 0x27D4EB2F165667C5"

definition le64 :: "byte list \<Rightarrow> 64 word" where
  "le64 bs = foldr (\<lambda>b acc. push_bit 8 acc OR ucast b) (take 8 bs) 0"

definition xxh64_round :: "64 word \<Rightarrow> 64 word \<Rightarrow> 64 word" where
  "xxh64_round acc inp = word_rotl 31 (acc + inp * PRIME64_2) * PRIME64_1"

definition xxh64_mergeRound :: "64 word \<Rightarrow> 64 word \<Rightarrow> 64 word" where
  "xxh64_mergeRound acc v = (acc XOR xxh64_round 0 v) * PRIME64_1 + PRIME64_4"

type_synonym xxh64_lanes = "64 word \<times> 64 word \<times> 64 word \<times> 64 word"

fun xxh64_stripe :: "xxh64_lanes \<Rightarrow> byte list \<Rightarrow> xxh64_lanes" where
  "xxh64_stripe (v1, v2, v3, v4) s =
     (xxh64_round v1 (le64 s), xxh64_round v2 (le64 (drop 8 s)),
      xxh64_round v3 (le64 (drop 16 s)), xxh64_round v4 (le64 (drop 24 s)))"

fun xxh64_tail :: "64 word \<Rightarrow> byte list \<Rightarrow> 64 word" where
  "xxh64_tail h bs =
     (if 8 \<le> length bs then
        xxh64_tail (word_rotl 27 (h XOR xxh64_round 0 (le64 bs)) * PRIME64_1 + PRIME64_4)
          (drop 8 bs)
      else if 4 \<le> length bs then
        xxh64_tail (word_rotl 23 (h XOR le64 (take 4 bs) * PRIME64_1) * PRIME64_2 + PRIME64_3)
          (drop 4 bs)
      else case bs of
        [] \<Rightarrow> h
      | b # rest \<Rightarrow> xxh64_tail (word_rotl 11 (h XOR ucast b * PRIME64_5) * PRIME64_1) rest)"

definition xxh64_avalanche :: "64 word \<Rightarrow> 64 word" where
  "xxh64_avalanche h0 =
     (let h1 = (h0 XOR drop_bit 33 h0) * PRIME64_2;
          h2 = (h1 XOR drop_bit 29 h1) * PRIME64_3
      in h2 XOR drop_bit 32 h2)"

definition XXH_h64 :: "string \<Rightarrow> 64 word \<Rightarrow> 64 word" where
  "XXH_h64 input seed =
     (let bs = stringToBytes input;
          n = length bs;
          full = 32 * (n div 32);
          h = (if 32 \<le> n then
                 (case foldl xxh64_stripe
                         (seed + PRIME64_1 + PRIME64_2, seed + PRIME64_2, seed, seed - PRIME64_1)
                         (chunks 32 (take full bs))
                  of (v1, v2, v3, v4) \<Rightarrow>
                    xxh64_mergeRound (xxh64_mergeRound (xxh64_mergeRound (xxh64_mergeRound
                      (word_rotl 1 v1 + word_rotl 7 v2 + word_rotl 12 v3 + word_rotl 18 v4)
                      v1) v2) v3) v4)
               else seed + PRIME64_5)
      in xxh64_avalanche (xxh64_tail (h + of_nat n) (drop full bs)))"

text \<open>
  \<^verbatim>\<open>.toString(16)\<close> of the 64-bit result: lower-case hexadecimal digits with no leading
  zeros, so at most 16 of them (the first argument bounds the recursion).
\<close>

fun hexDigits :: "nat \<Rightarrow> nat \<Rightarrow> string" where
  "hexDigits 0 n = []"
| "hexDigits (Suc k) n =
     (if n < 16 then [hexDigit n] else hexDigits k (n div 16) @ [hexDigit (n mod 16)])"

definition toString16 :: "64 word \<Rightarrow> string" where
  "toString16 w = hexDigits 16 (unat w)"

text \<open>\<^verbatim>\<open>s.slice(a, b)\<close> for \<open>0 \<le> a \<le> b\<close>.\<close>

definition slice :: "nat \<Rightarrow> nat \<Rightarrow> string \<Rightarrow> string" where
  "slice a b s = take (b - a) (drop a s)"

subsection \<open>The three \<^verbatim>\<open>generateExplanationId\<close> functions\<close>

text \<open>Incremental sync.\<close>

definition generateExplanationId :: "string \<Rightarrow> string" where
  "generateExplanationId filePath = uuidv5 filePath uuidv5_URL"

text \<open>Ordered full sync (\<^verbatim>\<open>scripts/insert-explanations.ts\<close>).\<close>

definition generateExplanationId_insert :: "string \<Rightarrow> string" where
  "generateExplanationId_insert filePath = uuidv5 filePath uuidv5_URL"

text \<open>Single-link full sync (\<^verbatim>\<open>scripts/sync-explanations.ts\<close>).\<close>

definition generateExplanationId_full :: "string \<Rightarrow> string" where
  "generateExplanationId_full filePath =
     (let hash = toString16 (XXH_h64 filePath 0)
      in slice 0 8 hash @ ''-'' @ slice 8 12 hash @ ''-'' @ slice 12 16 hash @
         ''-0000-000000000000'')"

section \<open>Manifest and store\<close>

text \<open>
  An entry of \<^verbatim>\<open>meta.json\<close> as \<^verbatim>\<open>metaSchema\<close> validates it. The field \<^verbatim>\<open>file\<close> is written
  \<open>file'\<close>, the plain name being reserved.
\<close>

record MetaEntry =
  file' :: string
  questions :: "string list"

text \<open>
  The three tables the scripts touch. A row of \<^verbatim>\<open>nauka-ppla_question\<close> carries the single
  link; \<^verbatim>\<open>nauka-ppla_question_to_explanation\<close> is the ordered join table. The table
  \<^verbatim>\<open>nauka-ppla_explanation\<close> is keyed by \<^verbatim>\<open>id\<close> (the upsert's conflict target). Foreign keys
  and the transport are not part of the scripts and are left out: every statement succeeds.
\<close>

record question_row =
  q_id :: string
  externalId :: string
  explanationId :: "string option"

record link_row =
  l_questionId :: string
  l_explanationId :: string
  l_order :: nat
  l_id :: string

record db =
  explanation_tbl :: "string \<rightharpoonup> string"
  question_tbl :: "question_row list"
  question_to_explanation_tbl :: "link_row list"

text \<open>The four statements of the single-link scripts.\<close>

datatype stmt =
    Unlink string string
  | DeleteExplanation string
  | UpsertExplanation string string
  | Link string string

fun exec :: "stmt \<Rightarrow> db \<Rightarrow> db" where
  "exec (Unlink qid eid) d =
     d\<lparr>question_tbl :=
         map (\<lambda>r. if externalId r = qid \<and> explanationId r = Some eid
                  then r\<lparr>explanationId := None\<rparr> else r)
           (question_tbl d)\<rparr>"
| "exec (DeleteExplanation eid) d = d\<lparr>explanation_tbl := (explanation_tbl d)(eid := None)\<rparr>"
| "exec (UpsertExplanation eid content) d =
     d\<lparr>explanation_tbl := (explanation_tbl d)(eid \<mapsto> content)\<rparr>"
| "exec (Link qid eid) d =
     d\<lparr>question_tbl :=
         map (\<lambda>r. if externalId r = qid then r\<lparr>explanationId := Some eid\<rparr> else r)
           (question_tbl d)\<rparr>"

text \<open>
  The state of a run: the store, the \<^verbatim>\<open>stats\<close> object, the warnings printed, and a journal
  \<open>issued\<close> of the statements sent to the store, in order. The journal is not a variable of
  the script; it records what the script does, so that its order can be talked about.
\<close>

record sync_state =
  store :: db
  deleted :: nat
  upserted :: nat
  questionsLinked :: nat
  questionsUnlinked :: nat
  questionsNotFound :: "string list"
  warnings :: "string list"
  issued :: "stmt list"

definition initial :: "db \<Rightarrow> sync_state" where
  "initial d =
     \<lparr>store = d, deleted = 0, upserted = 0, questionsLinked = 0, questionsUnlinked = 0,
      questionsNotFound = [], warnings = [], issued = []\<rparr>"

definition run_stmt :: "stmt \<Rightarrow> sync_state \<Rightarrow> sync_state" where
  "run_stmt st s = s\<lparr>store := exec st (store s), issued := issued s @ [st]\<rparr>"

section \<open>Incremental sync\<close>

subsection \<open>Diff\<close>

text \<open>\<^verbatim>\<open>new Map(meta.map((e) => [e.file, e]))\<close>: a later entry replaces an earlier one.\<close>

definition mkMap :: "MetaEntry list \<Rightarrow> (string \<rightharpoonup> MetaEntry)" where
  "mkMap meta = map_of (rev (map (\<lambda>e. (file' e, e)) meta))"

definition removed_of :: "MetaEntry list \<Rightarrow> MetaEntry list \<Rightarrow> MetaEntry list" where
  "removed_of newMeta oldMeta = filter (\<lambda>e. mkMap newMeta (file' e) = None) oldMeta"

definition added_of :: "MetaEntry list \<Rightarrow> MetaEntry list \<Rightarrow> MetaEntry list" where
  "added_of newMeta oldMeta = filter (\<lambda>e. mkMap oldMeta (file' e) = None) newMeta"

definition kept_of :: "MetaEntry list \<Rightarrow> MetaEntry list \<Rightarrow> MetaEntry list" where
  "kept_of newMeta oldMeta = filter (\<lambda>e. mkMap oldMeta (file' e) \<noteq> None) newMeta"

text \<open>
  The script compares \<^verbatim>\<open>JSON.stringify\<close> of the two sorted copies. Serialisation of an
  array of strings is one-to-one, so the comparison is that of the sorted lists. The
  entries filtered are those of \<open>kept\<close>, which \<open>oldMap\<close> has; the \<open>None\<close> case is not
  reached (lemma \<open>kept_in_oldMap\<close>).
\<close>

definition questionsModified_of :: "MetaEntry list \<Rightarrow> MetaEntry list \<Rightarrow> MetaEntry list" where
  "questionsModified_of newMeta oldMeta =
     filter (\<lambda>e. case mkMap oldMeta (file' e) of
                   None \<Rightarrow> False
                 | Some old \<Rightarrow> sort (questions old) \<noteq> sort (questions e))
       (kept_of newMeta oldMeta)"

definition contentOnly_of ::
  "MetaEntry list \<Rightarrow> MetaEntry list \<Rightarrow> string set \<Rightarrow> MetaEntry list" where
  "contentOnly_of newMeta oldMeta changedFiles =
     (let alreadyHandled =
            set (map file' (added_of newMeta oldMeta) @
                 map file' (questionsModified_of newMeta oldMeta))
      in filter (\<lambda>e. file' e \<notin> alreadyHandled \<and> file' e \<in> changedFiles)
           (kept_of newMeta oldMeta))"

definition toUpsert_of ::
  "MetaEntry list \<Rightarrow> MetaEntry list \<Rightarrow> string set \<Rightarrow> MetaEntry list" where
  "toUpsert_of newMeta oldMeta changedFiles =
     added_of newMeta oldMeta @ questionsModified_of newMeta oldMeta @
     contentOnly_of newMeta oldMeta changedFiles"

text \<open>
  The script computes no list of unchanged entries. Following the specification's words,
  they are the kept entries that are in neither of the two lists above.
\<close>

definition unchanged_of ::
  "MetaEntry list \<Rightarrow> MetaEntry list \<Rightarrow> string set \<Rightarrow> MetaEntry list" where
  "unchanged_of newMeta oldMeta changedFiles =
     filter (\<lambda>e. e \<notin> set (questionsModified_of newMeta oldMeta) \<and>
                 e \<notin> set (contentOnly_of newMeta oldMeta changedFiles))
       (kept_of newMeta oldMeta)"

definition paths :: "MetaEntry list \<Rightarrow> string set" where
  "paths es = set (map file' es)"

subsection \<open>Applying the diff\<close>

text \<open>
  The scoped unlink, issued once per question, at two places of the script with the same
  statement: for the questions of a removed entry, and for the questions dropped from a
  modified entry.
\<close>

fun unlinkQuestions :: "string \<Rightarrow> string list \<Rightarrow> sync_state \<Rightarrow> sync_state" where
  "unlinkQuestions eid [] s = s"
| "unlinkQuestions eid (qid # qids) s =
     unlinkQuestions eid qids
       ((run_stmt (Unlink qid eid) s)\<lparr>questionsUnlinked := questionsUnlinked s + 1\<rparr>)"

fun removeEntries :: "MetaEntry list \<Rightarrow> sync_state \<Rightarrow> sync_state" where
  "removeEntries [] s = s"
| "removeEntries (entry # rest) s =
     (let eid = generateExplanationId (file' entry);
          s1 = unlinkQuestions eid (questions entry) s;
          s2 = (run_stmt (DeleteExplanation eid) s1)\<lparr>deleted := deleted s1 + 1\<rparr>
      in removeEntries rest s2)"

text \<open>The update returns the rows it matched; the script only looks at their number.\<close>

fun linkQuestions :: "string \<Rightarrow> string list \<Rightarrow> sync_state \<Rightarrow> sync_state" where
  "linkQuestions eid [] s = s"
| "linkQuestions eid (qid # qids) s =
     (let result = filter (\<lambda>r. externalId r = qid) (question_tbl (store s));
          s1 = run_stmt (Link qid eid) s;
          s2 = (if length result > 0
                then s1\<lparr>questionsLinked := questionsLinked s1 + 1\<rparr>
                else s1\<lparr>questionsNotFound := questionsNotFound s1 @ [qid]\<rparr>)
      in linkQuestions eid qids s2)"

text \<open>
  The content directory is a partial map from the entry's path to the file's text;
  \<^verbatim>\<open>readFile\<close> throws where it has none, and the script catches that.
\<close>

datatype io_error = ENOENT

definition readFile :: "(string \<rightharpoonup> string) \<Rightarrow> string \<Rightarrow> io_error + string" where
  "readFile fs p = (case fs p of None \<Rightarrow> Inl ENOENT | Some content \<Rightarrow> Inr content)"

fun upsertEntries :: "(string \<rightharpoonup> string) \<Rightarrow> MetaEntry list \<Rightarrow> sync_state \<Rightarrow> sync_state" where
  "upsertEntries fs [] s = s"
| "upsertEntries fs (entry # rest) s =
     (let eid = generateExplanationId (file' entry)
      in case readFile fs (file' entry) of
           Inl err \<Rightarrow>
             upsertEntries fs rest
               (s\<lparr>warnings := warnings s @ [''  Warning: File not found: '' @ file' entry]\<rparr>)
         | Inr content \<Rightarrow>
             (let s1 = (run_stmt (UpsertExplanation eid content) s)\<lparr>upserted := upserted s + 1\<rparr>;
                  s2 = linkQuestions eid (questions entry) s1
              in upsertEntries fs rest s2))"

fun unlinkRemovedQuestions ::
  "(string \<rightharpoonup> MetaEntry) \<Rightarrow> MetaEntry list \<Rightarrow> sync_state \<Rightarrow> sync_state" where
  "unlinkRemovedQuestions oldMap [] s = s"
| "unlinkRemovedQuestions oldMap (entry # rest) s =
     (case oldMap (file' entry) of
        None \<Rightarrow> unlinkRemovedQuestions oldMap rest s
      | Some old \<Rightarrow>
          (let eid = generateExplanationId (file' entry);
               removedQuestions = filter (\<lambda>q. q \<notin> set (questions entry)) (questions old)
           in unlinkRemovedQuestions oldMap rest (unlinkQuestions eid removedQuestions s)))"

text \<open>
  \<^verbatim>\<open>main\<close>, from the point where the two manifests and the set of changed files have been
  loaded. Loading fails before any statement is issued.
\<close>

definition main ::
  "MetaEntry list \<Rightarrow> MetaEntry list \<Rightarrow> string set \<Rightarrow> (string \<rightharpoonup> string) \<Rightarrow> db \<Rightarrow> sync_state" where
  "main newMeta oldMeta changedFiles fs d =
     (let oldMap = mkMap oldMeta;
          removed = removed_of newMeta oldMeta;
          questionsModified = questionsModified_of newMeta oldMeta;
          toUpsert = toUpsert_of newMeta oldMeta changedFiles
      in if length removed = 0 \<and> length toUpsert = 0 \<and> length questionsModified = 0
         then initial d
         else unlinkRemovedQuestions oldMap questionsModified
                (upsertEntries fs toUpsert (removeEntries removed (initial d))))"

text \<open>What each pass sends to the store for one entry.\<close>

definition removedStmts :: "MetaEntry \<Rightarrow> stmt list" where
  "removedStmts e =
     map (\<lambda>q. Unlink q (generateExplanationId (file' e))) (questions e) @
     [DeleteExplanation (generateExplanationId (file' e))]"

definition upsertStmts :: "(string \<rightharpoonup> string) \<Rightarrow> MetaEntry \<Rightarrow> stmt list" where
  "upsertStmts fs e =
     (case fs (file' e) of
        None \<Rightarrow> []
      | Some content \<Rightarrow>
          UpsertExplanation (generateExplanationId (file' e)) content #
          map (\<lambda>q. Link q (generateExplanationId (file' e))) (questions e))"

definition unlinkStmts :: "(string \<rightharpoonup> MetaEntry) \<Rightarrow> MetaEntry \<Rightarrow> stmt list" where
  "unlinkStmts oldMap e =
     (case oldMap (file' e) of
        None \<Rightarrow> []
      | Some old \<Rightarrow>
          map (\<lambda>q. Unlink q (generateExplanationId (file' e)))
            (filter (\<lambda>q. q \<notin> set (questions e)) (questions old)))"

section \<open>Full sync, single link (\<^verbatim>\<open>scripts/sync-explanations.ts\<close>)\<close>

text \<open>
  A directory listing: files with their text, and directories with their entries.
  \<^verbatim>\<open>readExplanationsDir(dir, baseDir)\<close> is called with \<open>rel\<close>, the path of \<^verbatim>\<open>dir\<close> relative to
  \<^verbatim>\<open>baseDir\<close> (empty at the top), in place of the two absolute paths.
\<close>

datatype dirent = File string string | Directory string "dirent list"

definition joinRel :: "string \<Rightarrow> string \<Rightarrow> string" where
  "joinRel rel name = (if rel = [] then name else rel @ ''/'' @ name)"

definition endsWith :: "string \<Rightarrow> string \<Rightarrow> bool" where
  "endsWith s suffix =
     (length suffix \<le> length s \<and> drop (length s - length suffix) s = suffix)"

fun readExplanationsDir_full :: "string \<Rightarrow> dirent list \<Rightarrow> (string \<rightharpoonup> string)" where
  "readExplanationsDir_full rel [] = Map.empty"
| "readExplanationsDir_full rel (Directory name children # rest) =
     readExplanationsDir_full (joinRel rel name) children ++ readExplanationsDir_full rel rest"
| "readExplanationsDir_full rel (File name content # rest) =
     (if endsWith name ''.md'' then [joinRel rel name \<mapsto> content] else Map.empty) ++
     readExplanationsDir_full rel rest"

text \<open>\<^verbatim>\<open>explanationFiles.get(file)\<close> followed by the test \<^verbatim>\<open>!content\<close>: an empty text fails it too.\<close>

definition getContent :: "(string \<rightharpoonup> string) \<Rightarrow> string \<Rightarrow> string option" where
  "getContent explanationFiles f =
     (case explanationFiles f of
        None \<Rightarrow> None
      | Some content \<Rightarrow> if content = [] then None else Some content)"

text \<open>
  The loops over the manifest. The counters \<^verbatim>\<open>explanationsUpserted\<close> and \<^verbatim>\<open>questionsUpdated\<close>
  are the fields \<open>upserted\<close> and \<open>questionsLinked\<close> of the run state. The statement that links
  a question is the one of the incremental sync; this script also warns about a question
  it does not find.
\<close>

fun linkQuestions_full :: "string \<Rightarrow> string list \<Rightarrow> sync_state \<Rightarrow> sync_state" where
  "linkQuestions_full eid [] s = s"
| "linkQuestions_full eid (questionExternalId # rest) s =
     (let result = filter (\<lambda>r. externalId r = questionExternalId) (question_tbl (store s));
          s1 = run_stmt (Link questionExternalId eid) s;
          s2 = (if length result > 0
                then s1\<lparr>questionsLinked := questionsLinked s1 + 1\<rparr>
                else s1\<lparr>questionsNotFound := questionsNotFound s1 @ [questionExternalId],
                        warnings := warnings s1 @
                          [''  Warning: Question not found: '' @ questionExternalId]\<rparr>)
      in linkQuestions_full eid rest s2)"

fun syncEntries_full :: "(string \<rightharpoonup> string) \<Rightarrow> MetaEntry list \<Rightarrow> sync_state \<Rightarrow> sync_state" where
  "syncEntries_full explanationFiles [] s = s"
| "syncEntries_full explanationFiles (entry # rest) s =
     (case getContent explanationFiles (file' entry) of
        None \<Rightarrow>
          syncEntries_full explanationFiles rest
            (s\<lparr>warnings := warnings s @ [''Warning: File not found: '' @ file' entry]\<rparr>)
      | Some content \<Rightarrow>
          (let eid = generateExplanationId_full (file' entry);
               s1 = (run_stmt (UpsertExplanation eid content) s)\<lparr>upserted := upserted s + 1\<rparr>;
               s2 = linkQuestions_full eid (questions entry) s1
           in syncEntries_full explanationFiles rest s2))"

definition main_full :: "dirent list \<Rightarrow> MetaEntry list \<Rightarrow> db \<Rightarrow> sync_state" where
  "main_full explanations meta d =
     syncEntries_full (readExplanationsDir_full [] explanations) meta (initial d)"

text \<open>What the loop sends to the store for one entry, and the statements that only write.\<close>

definition fullStmts :: "(string \<rightharpoonup> string) \<Rightarrow> MetaEntry \<Rightarrow> stmt list" where
  "fullStmts explanationFiles e =
     (case getContent explanationFiles (file' e) of
        None \<Rightarrow> []
      | Some content \<Rightarrow>
          UpsertExplanation (generateExplanationId_full (file' e)) content #
          map (\<lambda>q. Link q (generateExplanationId_full (file' e))) (questions e))"

fun is_write :: "stmt \<Rightarrow> bool" where
  "is_write (UpsertExplanation eid content) = True"
| "is_write (Link qid eid) = True"
| "is_write (Unlink qid eid) = False"
| "is_write (DeleteExplanation eid) = False"

section \<open>Full sync, ordered links (\<^verbatim>\<open>scripts/insert-explanations.ts\<close>)\<close>

definition SVGS_BASE_URL :: string where
  "SVGS_BASE_URL =
     ''https://raw.githubusercontent.com/fmkra/pplka-explanations/refs/heads/'' @
     ''feat/profil-skrzydla'' @ ''/explanations/''"

text \<open>\<^verbatim>\<open>encodeURIComponent\<close>, on the UTF-8 bytes of the string.\<close>

definition uriUnreserved :: "char \<Rightarrow> bool" where
  "uriUnreserved c =
     (c \<in> set (''ABCDEFGHIJKLMNOPQRSTUVWXYZabcdefghijklmnopqrstuvwxyz0123456789-_.!~*()'' @
               [CHR 0x27]))"

definition hexUpper :: "nat \<Rightarrow> char" where
  "hexUpper n = ''0123456789ABCDEF'' ! (n mod 16)"

definition encodeURIComponent :: "string \<Rightarrow> string" where
  "encodeURIComponent s =
     concat (map (\<lambda>c. if uriUnreserved c then [c]
                       else [CHR ''%'', hexUpper (of_char c div 16), hexUpper (of_char c mod 16)]) s)"

definition svgReference :: "string \<Rightarrow> string" where
  "svgReference relativePath =
     ''![]('' @ SVGS_BASE_URL @ encodeURIComponent relativePath @ '')''"

fun readExplanationsDir_insert :: "string \<Rightarrow> dirent list \<Rightarrow> (string \<rightharpoonup> string)" where
  "readExplanationsDir_insert rel [] = Map.empty"
| "readExplanationsDir_insert rel (Directory name children # rest) =
     readExplanationsDir_insert (joinRel rel name) children ++
     readExplanationsDir_insert rel rest"
| "readExplanationsDir_insert rel (File name content # rest) =
     (if endsWith name ''.md'' then [joinRel rel name \<mapsto> content]
      else if endsWith name ''.svg'' then [joinRel rel name \<mapsto> svgReference (joinRel rel name)]
      else Map.empty) ++
     readExplanationsDir_insert rel rest"

text \<open>\<^verbatim>\<open>[...new Set(xs)]\<close>: the first occurrence of each element, in order.\<close>

definition unique :: "string list \<Rightarrow> string list" where
  "unique xs = foldl (\<lambda>acc x. if x \<in> set acc then acc else acc @ [x]) [] xs"

text \<open>
  The state of a run of this script. \<^verbatim>\<open>uuidv4()\<close> is random; the run is given the values
  its successive calls return as a function of the call's number, and counts its calls.
\<close>

record insert_state =
  i_store :: db
  explanationsUpserted :: nat
  linksInserted :: nat
  i_questionsNotFound :: "string list"
  i_warnings :: "string list"
  uuidv4_calls :: nat

definition initial_insert :: "db \<Rightarrow> insert_state" where
  "initial_insert d =
     \<lparr>i_store = d, explanationsUpserted = 0, linksInserted = 0, i_questionsNotFound = [],
      i_warnings = [], uuidv4_calls = 0\<rparr>"

fun upsertUnique :: "(string \<rightharpoonup> string) \<Rightarrow> string list \<Rightarrow> insert_state \<Rightarrow> insert_state" where
  "upsertUnique explanationFiles [] s = s"
| "upsertUnique explanationFiles (f # rest) s =
     (case getContent explanationFiles f of
        None \<Rightarrow>
          upsertUnique explanationFiles rest
            (s\<lparr>i_warnings := i_warnings s @ [''Warning: File not found: '' @ f]\<rparr>)
      | Some content \<Rightarrow>
          upsertUnique explanationFiles rest
            (s\<lparr>i_store := exec (UpsertExplanation (generateExplanationId_insert f) content)
                            (i_store s),
               explanationsUpserted := explanationsUpserted s + 1\<rparr>))"

text \<open>The inner loop: \<open>order\<close> is the position in the manifest's list, also past a skipped file.\<close>

fun insertLinks ::
  "(nat \<Rightarrow> string) \<Rightarrow> (string \<rightharpoonup> string) \<Rightarrow> string \<Rightarrow> nat \<Rightarrow> string list \<Rightarrow>
   insert_state \<Rightarrow> insert_state" where
  "insertLinks uuidv4 explanationFiles questionId order [] s = s"
| "insertLinks uuidv4 explanationFiles questionId order (f # rest) s =
     (case getContent explanationFiles f of
        None \<Rightarrow>
          insertLinks uuidv4 explanationFiles questionId (order + 1) rest
            (s\<lparr>i_warnings :=
                 i_warnings s @ [''Warning: File not found: '' @ f @ '', skipping link'']\<rparr>)
      | Some content \<Rightarrow>
          (let row = \<lparr>l_questionId = questionId,
                      l_explanationId = generateExplanationId_insert f,
                      l_order = order,
                      l_id = uuidv4 (uuidv4_calls s)\<rparr>;
               d = i_store s
           in insertLinks uuidv4 explanationFiles questionId (order + 1) rest
                (s\<lparr>i_store :=
                     d\<lparr>question_to_explanation_tbl := question_to_explanation_tbl d @ [row]\<rparr>,
                   uuidv4_calls := uuidv4_calls s + 1,
                   linksInserted := linksInserted s + 1\<rparr>)))"

text \<open>
  The loop over \<^verbatim>\<open>Object.keys(meta)\<close>; the manifest is the list of its keys with their values,
  in that order.
\<close>

fun replaceLinks ::
  "(nat \<Rightarrow> string) \<Rightarrow> (string \<rightharpoonup> string) \<Rightarrow> (string \<times> string list) list \<Rightarrow>
   insert_state \<Rightarrow> insert_state" where
  "replaceLinks uuidv4 explanationFiles [] s = s"
| "replaceLinks uuidv4 explanationFiles ((questionExternalId, files) # rest) s =
     (if length files = 0 then replaceLinks uuidv4 explanationFiles rest s
      else case find (\<lambda>r. externalId r = questionExternalId) (question_tbl (i_store s)) of
        None \<Rightarrow>
          replaceLinks uuidv4 explanationFiles rest
            (s\<lparr>i_questionsNotFound := i_questionsNotFound s @ [questionExternalId],
               i_warnings :=
                 i_warnings s @ [''Warning: Question not found: '' @ questionExternalId]\<rparr>)
      | Some question \<Rightarrow>
          (let d = i_store s;
               s1 = s\<lparr>i_store :=
                        d\<lparr>question_to_explanation_tbl :=
                            filter (\<lambda>l. l_questionId l \<noteq> q_id question)
                              (question_to_explanation_tbl d)\<rparr>\<rparr>
           in replaceLinks uuidv4 explanationFiles rest
                (insertLinks uuidv4 explanationFiles (q_id question) 0 files s1)))"

definition main_insert ::
  "(nat \<Rightarrow> string) \<Rightarrow> dirent list \<Rightarrow> (string \<times> string list) list \<Rightarrow> db \<Rightarrow> insert_state" where
  "main_insert uuidv4 explanations meta d =
     (let uniqueFiles = unique (concat (map snd meta));
          explanationFiles = readExplanationsDir_insert [] explanations
      in replaceLinks uuidv4 explanationFiles meta
           (upsertUnique explanationFiles uniqueFiles (initial_insert d)))"

text \<open>A row of the join table without its random \<^verbatim>\<open>id\<close>.\<close>

definition link_of :: "link_row \<Rightarrow> string \<times> string \<times> nat" where
  "link_of l = (l_questionId l, l_explanationId l, l_order l)"

text \<open>
  For the proofs: the upserts of the first loop; the question id a manifest key resolves
  to, if its list is not empty and the question is found; the ids so reached; the links
  the inner loop inserts for one question, without their random ids; and the links a run
  leaves of those it inserted.
\<close>

definition uniqueStmts :: "(string \<rightharpoonup> string) \<Rightarrow> string list \<Rightarrow> stmt list" where
  "uniqueStmts explanationFiles fs =
     concat (map (\<lambda>f. case getContent explanationFiles f of
                        None \<Rightarrow> []
                      | Some content \<Rightarrow>
                          [UpsertExplanation (generateExplanationId_insert f) content]) fs)"

definition resolve :: "question_row list \<Rightarrow> string \<times> string list \<Rightarrow> string option" where
  "resolve qtbl m =
     (if length (snd m) = 0 then None
      else map_option q_id (find (\<lambda>r. externalId r = fst m) qtbl))"

definition touchedIds :: "question_row list \<Rightarrow> (string \<times> string list) list \<Rightarrow> string list" where
  "touchedIds qtbl meta = List.map_filter (resolve qtbl) meta"

fun linksFor ::
  "(string \<rightharpoonup> string) \<Rightarrow> string \<Rightarrow> nat \<Rightarrow> string list \<Rightarrow> (string \<times> string \<times> nat) list" where
  "linksFor explanationFiles questionId order [] = []"
| "linksFor explanationFiles questionId order (f # rest) =
     (case getContent explanationFiles f of
        None \<Rightarrow> linksFor explanationFiles questionId (order + 1) rest
      | Some content \<Rightarrow>
          (questionId, generateExplanationId_insert f, order) #
          linksFor explanationFiles questionId (order + 1) rest)"

fun plannedLinks ::
  "question_row list \<Rightarrow> (string \<rightharpoonup> string) \<Rightarrow> (string \<times> string list) list \<Rightarrow>
   (string \<times> string \<times> nat) list" where
  "plannedLinks qtbl explanationFiles [] = []"
| "plannedLinks qtbl explanationFiles (m # rest) =
     (case resolve qtbl m of
        None \<Rightarrow> plannedLinks qtbl explanationFiles rest
      | Some questionId \<Rightarrow>
          filter (\<lambda>t. fst t \<notin> set (touchedIds qtbl rest))
            (linksFor explanationFiles questionId 0 (snd m)) @
          plannedLinks qtbl explanationFiles rest)"

section \<open>Example inputs\<close>

text \<open>
  Two revisions of a manifest with one entry of each kind: \<^verbatim>\<open>a.md\<close> is removed, \<^verbatim>\<open>b.md\<close> is
  added, \<^verbatim>\<open>m.md\<close> loses the question \<^verbatim>\<open>Q2\<close>, \<^verbatim>\<open>c.md\<close> and \<^verbatim>\<open>u.md\<close> keep their questions.
\<close>

definition ex_old :: "MetaEntry list" where
  "ex_old = [\<lparr>file' = ''a.md'', questions = [''Q1'', ''Q2'']\<rparr>,
             \<lparr>file' = ''m.md'', questions = [''Q1'', ''Q2'']\<rparr>,
             \<lparr>file' = ''c.md'', questions = [''Q3'']\<rparr>,
             \<lparr>file' = ''u.md'', questions = [''Q5'']\<rparr>]"

definition ex_new :: "MetaEntry list" where
  "ex_new = [\<lparr>file' = ''b.md'', questions = [''Q4'']\<rparr>,
             \<lparr>file' = ''m.md'', questions = [''Q1'']\<rparr>,
             \<lparr>file' = ''c.md'', questions = [''Q3'']\<rparr>,
             \<lparr>file' = ''u.md'', questions = [''Q5'']\<rparr>]"

text \<open>
  The content directory, with all files of the new manifest, without \<^verbatim>\<open>b.md\<close> and without
  \<^verbatim>\<open>m.md\<close>, and a store in which \<^verbatim>\<open>Q1\<close> has been linked to another explanation since \<^verbatim>\<open>a.md\<close> was synced.
  Below them, scenario C of the specification with a store in which no question is linked.
\<close>

definition ex_db :: db where
  "ex_db =
     \<lparr>explanation_tbl = [generateExplanationId ''a.md'' \<mapsto> ''A''],
      question_tbl =
        [\<lparr>q_id = ''1'', externalId = ''Q1'', explanationId = Some ''X''\<rparr>,
         \<lparr>q_id = ''2'', externalId = ''Q2'', explanationId = Some (generateExplanationId ''a.md'')\<rparr>,
         \<lparr>q_id = ''3'', externalId = ''Q3'', explanationId = None\<rparr>],
      question_to_explanation_tbl = []\<rparr>"

definition ex_fs :: "string \<rightharpoonup> string" where
  "ex_fs = [''b.md'' \<mapsto> ''B'', ''m.md'' \<mapsto> ''M'', ''c.md'' \<mapsto> ''C'', ''u.md'' \<mapsto> ''U'']"

definition ex_fs_missing :: "string \<rightharpoonup> string" where
  "ex_fs_missing = [''m.md'' \<mapsto> ''M'', ''c.md'' \<mapsto> ''C'', ''u.md'' \<mapsto> ''U'']"

definition ex_fs_no_m :: "string \<rightharpoonup> string" where
  "ex_fs_no_m = [''b.md'' \<mapsto> ''B'', ''c.md'' \<mapsto> ''C'', ''u.md'' \<mapsto> ''U'']"

definition scC_old :: "MetaEntry list" where
  "scC_old = [\<lparr>file' = ''c.md'', questions = [''Q1'']\<rparr>]"

definition scC_new :: "MetaEntry list" where
  "scC_new = [\<lparr>file' = ''c.md'', questions = [''Q1'', ''Q2'']\<rparr>]"

definition scC_db :: db where
  "scC_db =
     \<lparr>explanation_tbl = Map.empty,
      question_tbl =
        [\<lparr>q_id = ''1'', externalId = ''Q1'', explanationId = None\<rparr>,
         \<lparr>q_id = ''2'', externalId = ''Q2'', explanationId = None\<rparr>],
      question_to_explanation_tbl = []\<rparr>"

text \<open>
  A content directory, an ordered manifest whose second file is not in it, a store with
  two questions, the same store with a link of the question the manifest does not name,
  and the values of \<^verbatim>\<open>uuidv4()\<close> in two runs.
\<close>

definition ex_dir :: "dirent list" where
  "ex_dir =
     [File ''x.svg'' ''<svg/>'',
      Directory ''d'' [File ''y.md'' ''text'', File ''z.png'' ''png'', File ''w.svg'' ''<svg/>''],
      File ''a.md'' ''A'']"

definition ex_meta :: "(string \<times> string list) list" where
  "ex_meta = [(''Q1'', [''a.md'', ''gone.md'', ''d/y.md''])]"

definition ex_qdb :: db where
  "ex_qdb =
     \<lparr>explanation_tbl = Map.empty,
      question_tbl =
        [\<lparr>q_id = ''1'', externalId = ''Q1'', explanationId = None\<rparr>,
         \<lparr>q_id = ''2'', externalId = ''Q2'', explanationId = None\<rparr>],
      question_to_explanation_tbl = []\<rparr>"

definition ex_qdb_linked :: db where
  "ex_qdb_linked =
     ex_qdb\<lparr>question_to_explanation_tbl :=
       [\<lparr>l_questionId = ''2'', l_explanationId = ''E'', l_order = 5, l_id = ''L2''\<rparr>]\<rparr>"

definition ex_uuidv4_a :: "nat \<Rightarrow> string" where
  "ex_uuidv4_a n = ''aaaaaaaa-0000-4000-8000-00000000000'' @ [hexDigit n]"

definition ex_uuidv4_b :: "nat \<Rightarrow> string" where
  "ex_uuidv4_b n = ''bbbbbbbb-0000-4000-8000-00000000000'' @ [hexDigit n]"

section \<open>Properties of the ids\<close>

lemma length_sha1: "length (sha1 m) = 20"
  by (simp add: sha1_def word32_bytes_def split: prod.splits)

lemma length_byteToHex: "length (byteToHex b) = 2"
  by (simp add: byteToHex_def)

lemma length_unsafeStringify: "length (unsafeStringify arr) = 36"
  by (simp add: unsafeStringify_def length_byteToHex)

lemma unsafeStringify_19: "unsafeStringify arr ! 19 = hexDigit (unat (arr ! 8) div 16)"
  by (simp add: unsafeStringify_def byteToHex_def nth_append)

lemma variant_nibble:
  fixes b :: byte
  shows "unat ((b AND 0x3f) OR 0x80) div 16 \<in> {8, 9, 10, 11}"
proof -
  have le: "unat (b AND 0x3f) \<le> 63"
    using word_and_le1 [of b "0x3f"] by (simp add: word_le_nat_alt)
  have "(b AND 0x3f) AND 0x80 = 0"
    by (simp add: and.assoc)
  then have "(b AND 0x3f) OR 0x80 = (b AND 0x3f) + 0x80"
    by (simp add: disjunctive_add_eq_or)
  then have "unat ((b AND 0x3f) OR 0x80) = (unat (b AND 0x3f) + 128) mod 256"
    by (simp add: unat_word_ariths)
  with le have eq: "unat ((b AND 0x3f) OR 0x80) = unat (b AND 0x3f) + 128"
    by simp
  define n where "n = unat (b AND 0x3f)"
  from le have "n \<le> 63" by (simp add: n_def)
  then have "(n + 128) div 16 \<in> {8, 9, 10, 11}"
    by simp arith
  then show ?thesis
    unfolding eq n_def .
qed

lemma hexDigit_variant:
  "n \<in> {8, 9, 10, 11} \<Longrightarrow> hexDigit n \<in> {CHR ''8'', CHR ''9'', CHR ''a'', CHR ''b''}"
  by (auto simp: hexDigit_def)

text \<open>The variant digit of a version-5 UUID, at position 19 of its 36 characters.\<close>

lemma uuidv5_19: "uuidv5 v ns ! 19 \<in> {CHR ''8'', CHR ''9'', CHR ''a'', CHR ''b''}"
  unfolding uuidv5_def Let_def unsafeStringify_19
  by (rule hexDigit_variant) (simp add: length_sha1 variant_nibble del: insert_iff)

lemma length_uuidv5: "length (uuidv5 v ns) = 36"
  by (simp add: uuidv5_def Let_def length_unsafeStringify)

lemma length_generateExplanationId: "length (generateExplanationId p) = 36"
  by (simp add: generateExplanationId_def length_uuidv5)

text \<open>The xxhash id ends in a fixed group of zeros; when it has 36 characters, one sits at 19.\<close>

lemma full_id_19:
  assumes "length (generateExplanationId_full p) = 36"
  shows "generateExplanationId_full p ! 19 = CHR ''0''"
proof -
  obtain pre where eq: "generateExplanationId_full p = pre @ ''-0000-000000000000''"
    by (simp add: generateExplanationId_full_def Let_def)
  with assms have "length pre = 18" by simp
  with eq show ?thesis by (simp add: nth_append)
qed

lemma full_id_differs: "generateExplanationId_full p \<noteq> uuidv5 q ns"
proof
  assume eq: "generateExplanationId_full p = uuidv5 q ns"
  then have "length (generateExplanationId_full p) = 36"
    by (simp add: length_uuidv5)
  then have "generateExplanationId_full p ! 19 = CHR ''0''"
    by (rule full_id_19)
  moreover have "uuidv5 q ns ! 19 \<in> {CHR ''8'', CHR ''9'', CHR ''a'', CHR ''b''}"
    by (rule uuidv5_19)
  ultimately show False using eq by simp
qed

text \<open>
  Claim C1, as stated: the derivation gives the same id for the same path in every script
  of the system. It does not: for the path \<^verbatim>\<open>a.md\<close> the single-link full sync derives an id
  other than the one the incremental sync derives.
\<close>

theorem identity_differs_between_scripts:
  "generateExplanationId_full ''a.md'' \<noteq> generateExplanationId ''a.md''"
  unfolding generateExplanationId_def by (rule full_id_differs)

text \<open>
  Claim C1, amended: each script derives the id from the path alone; the incremental sync
  and the ordered full sync derive the same id for every path, a version-5 UUID of 36
  characters; the single-link full sync derives, for every path, an id that differs from
  it.
\<close>

theorem identity_derivation:
  "generateExplanationId p = generateExplanationId_insert p \<and>
   length (generateExplanationId p) = 36 \<and>
   generateExplanationId_full p \<noteq> generateExplanationId p"
  by (simp add: generateExplanationId_def generateExplanationId_insert_def length_uuidv5
      full_id_differs)

theorem identity_derivation_witness:
  "generateExplanationId ''c.md'' = generateExplanationId_insert ''c.md'' \<and>
   length (generateExplanationId ''c.md'') = 36 \<and>
   generateExplanationId_full ''c.md'' \<noteq> generateExplanationId ''c.md''"
  by (rule identity_derivation)

section \<open>The diff\<close>

lemma mkMap_None: "mkMap meta f = None \<longleftrightarrow> f \<notin> paths meta"
  by (simp add: mkMap_def paths_def map_of_eq_None_iff image_image)

lemma kept_in_oldMap: "e \<in> set (kept_of newMeta oldMeta) \<Longrightarrow> mkMap oldMeta (file' e) \<noteq> None"
  by (simp add: kept_of_def)

lemma paths_removed: "paths (removed_of newMeta oldMeta) = paths oldMeta - paths newMeta"
  by (auto simp: removed_of_def mkMap_None paths_def)

lemma paths_added: "paths (added_of newMeta oldMeta) = paths newMeta - paths oldMeta"
  by (auto simp: added_of_def mkMap_None paths_def)

lemma paths_kept: "paths (kept_of newMeta oldMeta) = paths newMeta \<inter> paths oldMeta"
  by (auto simp: kept_of_def mkMap_None paths_def)

lemma set_questionsModified_subset:
  "set (questionsModified_of newMeta oldMeta) \<subseteq> set (kept_of newMeta oldMeta)"
  by (auto simp: questionsModified_of_def)

lemma set_contentOnly_subset:
  "set (contentOnly_of newMeta oldMeta changedFiles) \<subseteq> set (kept_of newMeta oldMeta)"
  by (auto simp: contentOnly_of_def Let_def)

lemma kept_split:
  "paths (questionsModified_of newMeta oldMeta) \<union>
   paths (contentOnly_of newMeta oldMeta changedFiles) \<union>
   paths (unchanged_of newMeta oldMeta changedFiles) = paths (kept_of newMeta oldMeta)"
  using set_questionsModified_subset [of newMeta oldMeta]
    set_contentOnly_subset [of newMeta oldMeta changedFiles]
  by (auto simp: paths_def unchanged_of_def)

lemma contentOnly_iff:
  "e \<in> set (contentOnly_of newMeta oldMeta changedFiles) \<longleftrightarrow>
   e \<in> set (kept_of newMeta oldMeta) \<and>
   file' e \<notin> paths (added_of newMeta oldMeta) \<and>
   file' e \<notin> paths (questionsModified_of newMeta oldMeta) \<and> file' e \<in> changedFiles"
  by (auto simp: paths_def contentOnly_of_def Let_def)

lemma contentOnly_not_modified:
  "paths (questionsModified_of newMeta oldMeta) \<inter>
   paths (contentOnly_of newMeta oldMeta changedFiles) = {}"
proof -
  have "False" if a: "a \<in> set (questionsModified_of newMeta oldMeta)"
    and b: "b \<in> set (contentOnly_of newMeta oldMeta changedFiles)" and eq: "file' a = file' b" for a b
  proof -
    from b have "file' b \<notin> paths (questionsModified_of newMeta oldMeta)"
      by (simp add: contentOnly_iff)
    moreover from a have "file' a \<in> paths (questionsModified_of newMeta oldMeta)"
      by (simp add: paths_def)
    ultimately show False using eq by simp
  qed
  then show ?thesis by (auto simp: paths_def)
qed

lemma contentOnly_not_unchanged:
  "paths (contentOnly_of newMeta oldMeta changedFiles) \<inter>
   paths (unchanged_of newMeta oldMeta changedFiles) = {}"
proof -
  have "False" if a: "a \<in> set (contentOnly_of newMeta oldMeta changedFiles)"
    and b: "b \<in> set (unchanged_of newMeta oldMeta changedFiles)" and eq: "file' a = file' b" for a b
  proof -
    from b have bk: "b \<in> set (kept_of newMeta oldMeta)"
      and bn: "b \<notin> set (contentOnly_of newMeta oldMeta changedFiles)"
      by (simp_all add: unchanged_of_def)
    from a eq bk have "b \<in> set (contentOnly_of newMeta oldMeta changedFiles)"
      by (simp add: contentOnly_iff)
    with bn show False by simp
  qed
  then show ?thesis by (auto simp: paths_def)
qed

lemma modified_not_unchanged:
  assumes "distinct (map file' newMeta)"
  shows "paths (questionsModified_of newMeta oldMeta) \<inter>
         paths (unchanged_of newMeta oldMeta changedFiles) = {}"
proof -
  have inj: "inj_on file' (set newMeta)"
    using assms by (simp add: distinct_map)
  have "False" if a: "a \<in> set (questionsModified_of newMeta oldMeta)"
    and b: "b \<in> set (unchanged_of newMeta oldMeta changedFiles)" and eq: "file' a = file' b" for a b
  proof -
    from a have "a \<in> set newMeta" by (simp add: questionsModified_of_def kept_of_def)
    moreover from b have "b \<in> set newMeta" by (simp add: unchanged_of_def kept_of_def)
    ultimately have "a = b" using inj eq by (auto dest: inj_onD)
    with a b show False by (simp add: unchanged_of_def)
  qed
  then show ?thesis by (auto simp: paths_def)
qed

text \<open>
  Claim C2: for two manifest snapshots (the paths of the new one pairwise distinct, as the
  data model requires of a snapshot) and any set of changed paths, the five classes
  removed, added, linksModified, contentOnly and unchanged cover the paths of both
  snapshots and are pairwise disjoint; so an added entry whose file also changed is in
  \<open>added\<close> only.
\<close>

theorem diff_partition:
  assumes "distinct (map file' newMeta)"
  shows "paths (removed_of newMeta oldMeta) \<union> paths (added_of newMeta oldMeta) \<union>
         paths (questionsModified_of newMeta oldMeta) \<union>
         paths (contentOnly_of newMeta oldMeta changedFiles) \<union>
         paths (unchanged_of newMeta oldMeta changedFiles) = paths oldMeta \<union> paths newMeta \<and>
         paths (removed_of newMeta oldMeta) \<inter> paths (added_of newMeta oldMeta) = {} \<and>
         paths (removed_of newMeta oldMeta) \<inter> paths (questionsModified_of newMeta oldMeta) = {} \<and>
         paths (removed_of newMeta oldMeta) \<inter>
           paths (contentOnly_of newMeta oldMeta changedFiles) = {} \<and>
         paths (removed_of newMeta oldMeta) \<inter>
           paths (unchanged_of newMeta oldMeta changedFiles) = {} \<and>
         paths (added_of newMeta oldMeta) \<inter> paths (questionsModified_of newMeta oldMeta) = {} \<and>
         paths (added_of newMeta oldMeta) \<inter>
           paths (contentOnly_of newMeta oldMeta changedFiles) = {} \<and>
         paths (added_of newMeta oldMeta) \<inter>
           paths (unchanged_of newMeta oldMeta changedFiles) = {} \<and>
         paths (questionsModified_of newMeta oldMeta) \<inter>
           paths (contentOnly_of newMeta oldMeta changedFiles) = {} \<and>
         paths (questionsModified_of newMeta oldMeta) \<inter>
           paths (unchanged_of newMeta oldMeta changedFiles) = {} \<and>
         paths (contentOnly_of newMeta oldMeta changedFiles) \<inter>
           paths (unchanged_of newMeta oldMeta changedFiles) = {}"
proof -
  define R where "R = paths (removed_of newMeta oldMeta)"
  define A where "A = paths (added_of newMeta oldMeta)"
  define M where "M = paths (questionsModified_of newMeta oldMeta)"
  define C where "C = paths (contentOnly_of newMeta oldMeta changedFiles)"
  define U where "U = paths (unchanged_of newMeta oldMeta changedFiles)"
  have K: "M \<union> C \<union> U = paths newMeta \<inter> paths oldMeta"
    unfolding M_def C_def U_def by (simp add: kept_split paths_kept)
  have MC: "M \<inter> C = {}" unfolding M_def C_def by (rule contentOnly_not_modified)
  have CU: "C \<inter> U = {}" unfolding C_def U_def by (rule contentOnly_not_unchanged)
  have MU: "M \<inter> U = {}" unfolding M_def U_def by (rule modified_not_unchanged [OF assms])
  have R: "R = paths oldMeta - paths newMeta" unfolding R_def by (rule paths_removed)
  have A: "A = paths newMeta - paths oldMeta" unfolding A_def by (rule paths_added)
  from K R A MC CU MU have
    "R \<union> A \<union> M \<union> C \<union> U = paths oldMeta \<union> paths newMeta \<and>
     R \<inter> A = {} \<and> R \<inter> M = {} \<and> R \<inter> C = {} \<and> R \<inter> U = {} \<and>
     A \<inter> M = {} \<and> A \<inter> C = {} \<and> A \<inter> U = {} \<and>
     M \<inter> C = {} \<and> M \<inter> U = {} \<and> C \<inter> U = {}"
    by blast
  then show ?thesis
    unfolding R_def A_def M_def C_def U_def .
qed

theorem diff_partition_witness:
  "distinct (map file' ex_new) \<and>
   paths (added_of ex_new ex_old) \<inter> paths (contentOnly_of ex_new ex_old {''c.md'', ''b.md''}) = {} \<and>
   paths (questionsModified_of ex_new ex_old) \<inter>
     paths (unchanged_of ex_new ex_old {''c.md'', ''b.md''}) = {}"
proof -
  have d: "distinct (map file' ex_new)"
    by (simp add: ex_new_def)
  from diff_partition [OF d, of ex_old "{''c.md'', ''b.md''}"] d show ?thesis
    by blast
qed

text \<open>The example manifests, classified.\<close>

lemma sort_eq_iff_mset: "sort xs = sort ys \<longleftrightarrow> mset xs = mset ys"
  by (metis mset_sort properties_for_sort sorted_sort)

lemma ex_removed: "removed_of ex_new ex_old = [\<lparr>file' = ''a.md'', questions = [''Q1'', ''Q2'']\<rparr>]"
  by (simp add: removed_of_def mkMap_def ex_new_def ex_old_def)

lemma ex_added: "added_of ex_new ex_old = [\<lparr>file' = ''b.md'', questions = [''Q4'']\<rparr>]"
  by (simp add: added_of_def mkMap_def ex_new_def ex_old_def)

lemma ex_modified: "questionsModified_of ex_new ex_old = [\<lparr>file' = ''m.md'', questions = [''Q1'']\<rparr>]"
  by (simp add: questionsModified_of_def kept_of_def mkMap_def ex_new_def ex_old_def sort_eq_iff_mset)

lemma ex_contentOnly: "contentOnly_of ex_new ex_old {''c.md'', ''b.md''} = [\<lparr>file' = ''c.md'', questions = [''Q3'']\<rparr>]"
  by (simp add: contentOnly_of_def ex_added ex_modified)
    (simp add: kept_of_def mkMap_def ex_new_def ex_old_def)

section \<open>The incremental run\<close>

lemma issued_unlinkQuestions:
  "issued (unlinkQuestions eid qids s) = issued s @ map (\<lambda>q. Unlink q eid) qids"
  by (induction qids arbitrary: s) (simp_all add: run_stmt_def)

lemma store_unlinkQuestions:
  "store (unlinkQuestions eid qids s) = fold exec (map (\<lambda>q. Unlink q eid) qids) (store s)"
  by (induction qids arbitrary: s) (simp_all add: run_stmt_def)

lemma warnings_unlinkQuestions: "warnings (unlinkQuestions eid qids s) = warnings s"
  by (induction qids arbitrary: s) (simp_all add: run_stmt_def)

lemma issued_removeEntries:
  "issued (removeEntries es s) = issued s @ concat (map removedStmts es)"
  by (induction es arbitrary: s)
    (simp_all add: Let_def run_stmt_def issued_unlinkQuestions removedStmts_def)

lemma store_removeEntries:
  "store (removeEntries es s) = fold exec (concat (map removedStmts es)) (store s)"
  by (induction es arbitrary: s)
    (simp_all add: Let_def run_stmt_def store_unlinkQuestions removedStmts_def)

lemma warnings_removeEntries: "warnings (removeEntries es s) = warnings s"
  by (induction es arbitrary: s)
    (simp_all add: Let_def run_stmt_def warnings_unlinkQuestions)

lemma issued_linkQuestions:
  "issued (linkQuestions eid qids s) = issued s @ map (\<lambda>q. Link q eid) qids"
  by (induction qids arbitrary: s) (simp_all add: Let_def run_stmt_def)

lemma store_linkQuestions:
  "store (linkQuestions eid qids s) = fold exec (map (\<lambda>q. Link q eid) qids) (store s)"
  by (induction qids arbitrary: s) (simp_all add: Let_def run_stmt_def)

lemma warnings_linkQuestions: "warnings (linkQuestions eid qids s) = warnings s"
  by (induction qids arbitrary: s) (simp_all add: Let_def run_stmt_def)

lemma issued_upsertEntries:
  "issued (upsertEntries fs es s) = issued s @ concat (map (upsertStmts fs) es)"
  by (induction es arbitrary: s)
    (simp_all add: Let_def run_stmt_def readFile_def issued_linkQuestions upsertStmts_def
      split: option.splits)

lemma store_upsertEntries:
  "store (upsertEntries fs es s) = fold exec (concat (map (upsertStmts fs) es)) (store s)"
  by (induction es arbitrary: s)
    (simp_all add: Let_def run_stmt_def readFile_def store_linkQuestions upsertStmts_def
      split: option.splits)

lemma warnings_upsertEntries:
  "warnings (upsertEntries fs es s) =
   warnings s @ map (\<lambda>e. ''  Warning: File not found: '' @ file' e)
                  (filter (\<lambda>e. fs (file' e) = None) es)"
  by (induction es arbitrary: s)
    (simp_all add: Let_def run_stmt_def readFile_def warnings_linkQuestions
      split: option.splits)

lemma issued_unlinkRemovedQuestions:
  "issued (unlinkRemovedQuestions oldMap es s) = issued s @ concat (map (unlinkStmts oldMap) es)"
  by (induction es arbitrary: s)
    (simp_all add: Let_def issued_unlinkQuestions unlinkStmts_def split: option.splits)

lemma store_unlinkRemovedQuestions:
  "store (unlinkRemovedQuestions oldMap es s) =
   fold exec (concat (map (unlinkStmts oldMap) es)) (store s)"
  by (induction es arbitrary: s)
    (simp_all add: Let_def store_unlinkQuestions unlinkStmts_def split: option.splits)

lemma warnings_unlinkRemovedQuestions:
  "warnings (unlinkRemovedQuestions oldMap es s) = warnings s"
  by (induction es arbitrary: s)
    (simp_all add: Let_def warnings_unlinkQuestions split: option.splits)

text \<open>The journal of a run, and the store as the replay of the journal.\<close>

lemma issued_main:
  "issued (main newMeta oldMeta changedFiles fs d) =
   concat (map removedStmts (removed_of newMeta oldMeta)) @
   concat (map (upsertStmts fs) (toUpsert_of newMeta oldMeta changedFiles)) @
   concat (map (unlinkStmts (mkMap oldMeta)) (questionsModified_of newMeta oldMeta))"
  by (simp add: main_def Let_def initial_def issued_unlinkRemovedQuestions
      issued_upsertEntries issued_removeEntries)

lemma store_main:
  "store (main newMeta oldMeta changedFiles fs d) =
   fold exec (issued (main newMeta oldMeta changedFiles fs d)) d"
  unfolding issued_main
  by (simp add: main_def Let_def initial_def store_unlinkRemovedQuestions
      store_upsertEntries store_removeEntries)

lemma warnings_main:
  "warnings (main newMeta oldMeta changedFiles fs d) =
   map (\<lambda>e. ''  Warning: File not found: '' @ file' e)
     (filter (\<lambda>e. fs (file' e) = None) (toUpsert_of newMeta oldMeta changedFiles))"
  by (simp add: main_def Let_def initial_def warnings_unlinkRemovedQuestions
      warnings_upsertEntries warnings_removeEntries)

lemma rows_unlinkQuestions:
  "question_tbl (store (unlinkQuestions eid qids s)) =
   map (\<lambda>r. if externalId r \<in> set qids \<and> explanationId r = Some eid
            then r\<lparr>explanationId := None\<rparr> else r)
     (question_tbl (store s))"
proof (induction qids arbitrary: s)
  case Nil
  show ?case by (simp add: map_idI)
next
  case (Cons qid qids)
  show ?case
    by (auto simp: Cons.IH run_stmt_def)
qed

lemma rows_removeEntries:
  "question_tbl (store (removeEntries es s)) =
   map (\<lambda>r. if (\<exists>e\<in>set es. externalId r \<in> set (questions e) \<and>
                   explanationId r = Some (generateExplanationId (file' e)))
            then r\<lparr>explanationId := None\<rparr> else r)
     (question_tbl (store s))"
proof (induction es arbitrary: s)
  case Nil
  show ?case by (simp add: map_idI)
next
  case (Cons e es)
  show ?case
    by (auto simp: Cons.IH Let_def run_stmt_def rows_unlinkQuestions)
qed

lemma rows_unlinkRemovedQuestions:
  "question_tbl (store (unlinkRemovedQuestions oldMap es s)) =
   map (\<lambda>r. if (\<exists>e\<in>set es. \<exists>old. oldMap (file' e) = Some old \<and>
                   externalId r \<in> set (questions old) \<and> externalId r \<notin> set (questions e) \<and>
                   explanationId r = Some (generateExplanationId (file' e)))
            then r\<lparr>explanationId := None\<rparr> else r)
     (question_tbl (store s))"
proof (induction es arbitrary: s)
  case Nil
  show ?case by (simp add: map_idI)
next
  case (Cons e es)
  show ?case
    by (cases "oldMap (file' e)")
      (auto simp: Cons.IH Let_def rows_unlinkQuestions)
qed

text \<open>
  Claim C3: every unlink the incremental sync issues, for the questions of a removed entry
  and for the questions dropped from a modified entry, clears a question's link only when
  the link is the derived id of that entry; a link that points at another explanation
  \<open>X\<close> is left as it is. Row \<open>i\<close> of the question table is followed through each of the
  two passes.
\<close>

theorem scoped_unlink:
  assumes "i < length (question_tbl (store s))"
  defines "r \<equiv> question_tbl (store s) ! i"
  shows "(question_tbl (store (removeEntries removed s)) ! i = r \<or>
          question_tbl (store (removeEntries removed s)) ! i = r\<lparr>explanationId := None\<rparr> \<and>
          (\<exists>e\<in>set removed. externalId r \<in> set (questions e) \<and>
             explanationId r = Some (generateExplanationId (file' e)))) \<and>
         (question_tbl (store (unlinkRemovedQuestions oldMap modified s)) ! i = r \<or>
          question_tbl (store (unlinkRemovedQuestions oldMap modified s)) ! i =
            r\<lparr>explanationId := None\<rparr> \<and>
          (\<exists>e\<in>set modified. externalId r \<notin> set (questions e) \<and>
             explanationId r = Some (generateExplanationId (file' e)))) \<and>
         (\<forall>X. explanationId r = Some X \<longrightarrow>
            (\<forall>e\<in>set removed. X \<noteq> generateExplanationId (file' e)) \<longrightarrow>
            question_tbl (store (removeEntries removed s)) ! i = r) \<and>
         (\<forall>X. explanationId r = Some X \<longrightarrow>
            (\<forall>e\<in>set modified. X \<noteq> generateExplanationId (file' e)) \<longrightarrow>
            question_tbl (store (unlinkRemovedQuestions oldMap modified s)) ! i = r)"
  using assms(1) unfolding r_def
  by (auto simp: rows_removeEntries rows_unlinkRemovedQuestions)

lemma not_generated: "length x \<noteq> 36 \<Longrightarrow> x \<noteq> generateExplanationId p"
  using length_generateExplanationId [of p] by auto

theorem scoped_unlink_witness:
  "0 < length (question_tbl (store (initial ex_db))) \<and>
   explanationId (question_tbl (store (initial ex_db)) ! 0) = Some ''X'' \<and>
   removed_of ex_new ex_old = [\<lparr>file' = ''a.md'', questions = [''Q1'', ''Q2'']\<rparr>] \<and>
   ''X'' \<noteq> generateExplanationId ''a.md'' \<and>
   question_tbl (store (removeEntries (removed_of ex_new ex_old) (initial ex_db))) ! 0 =
   question_tbl (store (initial ex_db)) ! 0"
proof -
  have a: "0 < length (question_tbl (store (initial ex_db)))"
    by (simp add: initial_def ex_db_def)
  have b: "explanationId (question_tbl (store (initial ex_db)) ! 0) = Some ''X''"
    by (simp add: initial_def ex_db_def)
  have c: "\<forall>e\<in>set (removed_of ex_new ex_old). ''X'' \<noteq> generateExplanationId (file' e)"
    by (simp add: not_generated)
  from scoped_unlink [OF a, of "removed_of ex_new ex_old" "mkMap ex_old"
      "questionsModified_of ex_new ex_old"] b c
  have "question_tbl (store (removeEntries (removed_of ex_new ex_old) (initial ex_db))) ! 0 =
        question_tbl (store (initial ex_db)) ! 0"
    by blast
  moreover have "''X'' \<noteq> generateExplanationId ''a.md''"
    by (simp add: not_generated)
  ultimately show ?thesis using a b ex_removed by blast
qed

lemma ex_contentOnly_c:
  "contentOnly_of ex_new ex_old {''c.md''} = [\<lparr>file' = ''c.md'', questions = [''Q3'']\<rparr>]"
  by (simp add: contentOnly_of_def ex_added ex_modified)
    (simp add: kept_of_def mkMap_def ex_new_def ex_old_def)

lemma ex_contentOnly_none: "contentOnly_of ex_new ex_old {} = []"
  by (simp add: contentOnly_of_def)

text \<open>
  Claim C5, as stated: the statements are applied group by group in the order removed,
  added, linksModified, contentOnly. On the example manifests, with \<^verbatim>\<open>c.md\<close> changed, the
  unlink of the question dropped from the modified entry \<^verbatim>\<open>m.md\<close> is the last statement,
  after the upsert and the link of the content-only entry \<^verbatim>\<open>c.md\<close>.
\<close>

theorem modified_unlink_after_contentOnly:
  "questionsModified_of ex_new ex_old = [\<lparr>file' = ''m.md'', questions = [''Q1'']\<rparr>] \<and>
   contentOnly_of ex_new ex_old {''c.md''} = [\<lparr>file' = ''c.md'', questions = [''Q3'']\<rparr>] \<and>
   issued (main ex_new ex_old {''c.md''} ex_fs ex_db) =
     [Unlink ''Q1'' (generateExplanationId ''a.md''),
      Unlink ''Q2'' (generateExplanationId ''a.md''),
      DeleteExplanation (generateExplanationId ''a.md''),
      UpsertExplanation (generateExplanationId ''b.md'') ''B'',
      Link ''Q4'' (generateExplanationId ''b.md''),
      UpsertExplanation (generateExplanationId ''m.md'') ''M'',
      Link ''Q1'' (generateExplanationId ''m.md''),
      UpsertExplanation (generateExplanationId ''c.md'') ''C'',
      Link ''Q3'' (generateExplanationId ''c.md''),
      Unlink ''Q2'' (generateExplanationId ''m.md'')]"
  by (simp add: issued_main toUpsert_of_def ex_removed ex_added ex_modified ex_contentOnly_c
      removedStmts_def upsertStmts_def unlinkStmts_def ex_fs_def)
    (simp add: mkMap_def ex_old_def)

text \<open>
  Claim C5, amended: the statements of a run are those of the removed entries (scoped
  unlinks, then the delete, entry by entry), then the upsert and links of the added, the
  modified and the content-only entries in this order, then the scoped unlinks of the
  questions dropped from the modified entries; the store is the result of applying them
  in this order. So every statement of a removed entry comes before any other.
\<close>

theorem group_order:
  "issued (main newMeta oldMeta changedFiles fs d) =
     concat (map removedStmts (removed_of newMeta oldMeta)) @
     concat (map (upsertStmts fs) (added_of newMeta oldMeta)) @
     concat (map (upsertStmts fs) (questionsModified_of newMeta oldMeta)) @
     concat (map (upsertStmts fs) (contentOnly_of newMeta oldMeta changedFiles)) @
     concat (map (unlinkStmts (mkMap oldMeta)) (questionsModified_of newMeta oldMeta)) \<and>
   store (main newMeta oldMeta changedFiles fs d) =
     fold exec (issued (main newMeta oldMeta changedFiles fs d)) d"
proof (rule conjI)
  show "issued (main newMeta oldMeta changedFiles fs d) =
     concat (map removedStmts (removed_of newMeta oldMeta)) @
     concat (map (upsertStmts fs) (added_of newMeta oldMeta)) @
     concat (map (upsertStmts fs) (questionsModified_of newMeta oldMeta)) @
     concat (map (upsertStmts fs) (contentOnly_of newMeta oldMeta changedFiles)) @
     concat (map (unlinkStmts (mkMap oldMeta)) (questionsModified_of newMeta oldMeta))"
    by (simp add: issued_main toUpsert_of_def)
  show "store (main newMeta oldMeta changedFiles fs d) =
     fold exec (issued (main newMeta oldMeta changedFiles fs d)) d"
    by (rule store_main)
qed

theorem group_order_witness:
  "issued (main ex_new ex_old {''c.md''} ex_fs ex_db) =
     concat (map removedStmts (removed_of ex_new ex_old)) @
     concat (map (upsertStmts ex_fs) (added_of ex_new ex_old)) @
     concat (map (upsertStmts ex_fs) (questionsModified_of ex_new ex_old)) @
     concat (map (upsertStmts ex_fs) (contentOnly_of ex_new ex_old {''c.md''})) @
     concat (map (unlinkStmts (mkMap ex_old)) (questionsModified_of ex_new ex_old)) \<and>
   store (main ex_new ex_old {''c.md''} ex_fs ex_db) =
     fold exec (issued (main ex_new ex_old {''c.md''} ex_fs ex_db)) ex_db"
  by (rule group_order)

lemma upsertStmts_readable:
  "concat (map (upsertStmts fs) es) =
   concat (map (upsertStmts fs) (filter (\<lambda>e. fs (file' e) \<noteq> None) es))"
  by (induction es) (auto simp: upsertStmts_def)

lemma upsertEntries_append:
  "upsertEntries fs (xs @ ys) s = upsertEntries fs ys (upsertEntries fs xs s)"
  by (induction xs arbitrary: s) (simp_all add: Let_def split: sum.splits)

text \<open>
  Claim C8, as stated: for an entry whose file cannot be read, only the operations that
  affect its content are skipped. On the example manifests with \<^verbatim>\<open>m.md\<close> unreadable, the
  modified entry \<^verbatim>\<open>m.md\<close> is among the entries to upsert, and the run issues no link of its
  question \<^verbatim>\<open>Q1\<close>: the link, which writes no content, is skipped with the upsert, while
  the unlink of its dropped question \<^verbatim>\<open>Q2\<close> is still issued.
\<close>

theorem links_skipped_with_missing_file:
  "ex_fs_no_m ''m.md'' = None \<and>
   \<lparr>file' = ''m.md'', questions = [''Q1'']\<rparr> \<in> set (toUpsert_of ex_new ex_old {''c.md''}) \<and>
   Link ''Q1'' (generateExplanationId ''m.md'') \<notin>
     set (issued (main ex_new ex_old {''c.md''} ex_fs_no_m ex_db)) \<and>
   issued (main ex_new ex_old {''c.md''} ex_fs_no_m ex_db) =
     [Unlink ''Q1'' (generateExplanationId ''a.md''),
      Unlink ''Q2'' (generateExplanationId ''a.md''),
      DeleteExplanation (generateExplanationId ''a.md''),
      UpsertExplanation (generateExplanationId ''b.md'') ''B'',
      Link ''Q4'' (generateExplanationId ''b.md''),
      UpsertExplanation (generateExplanationId ''c.md'') ''C'',
      Link ''Q3'' (generateExplanationId ''c.md''),
      Unlink ''Q2'' (generateExplanationId ''m.md'')]"
proof -
  have i: "issued (main ex_new ex_old {''c.md''} ex_fs_no_m ex_db) =
     [Unlink ''Q1'' (generateExplanationId ''a.md''),
      Unlink ''Q2'' (generateExplanationId ''a.md''),
      DeleteExplanation (generateExplanationId ''a.md''),
      UpsertExplanation (generateExplanationId ''b.md'') ''B'',
      Link ''Q4'' (generateExplanationId ''b.md''),
      UpsertExplanation (generateExplanationId ''c.md'') ''C'',
      Link ''Q3'' (generateExplanationId ''c.md''),
      Unlink ''Q2'' (generateExplanationId ''m.md'')]"
    by (simp add: issued_main toUpsert_of_def ex_removed ex_added ex_modified ex_contentOnly_c
        removedStmts_def upsertStmts_def unlinkStmts_def ex_fs_no_m_def)
      (simp add: mkMap_def ex_old_def)
  have m: "ex_fs_no_m ''m.md'' = None" by (simp add: ex_fs_no_m_def)
  have u: "\<lparr>file' = ''m.md'', questions = [''Q1'']\<rparr> \<in> set (toUpsert_of ex_new ex_old {''c.md''})"
    by (simp add: toUpsert_of_def ex_modified)
  have n: "Link ''Q1'' (generateExplanationId ''m.md'') \<notin>
     set (issued (main ex_new ex_old {''c.md''} ex_fs_no_m ex_db))"
    unfolding i by simp
  from i m u n show ?thesis by blast
qed

text \<open>
  Claim C8, amended: an entry whose file cannot be read gets a warning and none of the
  statements of the upsert pass, neither the upsert of its row nor the links of its
  questions; every other entry is processed as if the entry were not in the list, the
  scoped unlinks of the third pass are still issued, and the run ends with its final
  state, the store being the replay of the statements issued. The last conjunct is the
  loop at such an entry: it adds the warning and goes on with the entries after it.
\<close>

theorem missing_file_skipped:
  "issued (main newMeta oldMeta changedFiles fs d) =
     concat (map removedStmts (removed_of newMeta oldMeta)) @
     concat (map (upsertStmts fs)
       (filter (\<lambda>e. fs (file' e) \<noteq> None) (toUpsert_of newMeta oldMeta changedFiles))) @
     concat (map (unlinkStmts (mkMap oldMeta)) (questionsModified_of newMeta oldMeta)) \<and>
   warnings (main newMeta oldMeta changedFiles fs d) =
     map (\<lambda>e. ''  Warning: File not found: '' @ file' e)
       (filter (\<lambda>e. fs (file' e) = None) (toUpsert_of newMeta oldMeta changedFiles)) \<and>
   store (main newMeta oldMeta changedFiles fs d) =
     fold exec (issued (main newMeta oldMeta changedFiles fs d)) d \<and>
   (fs (file' e) = None \<longrightarrow>
    upsertEntries fs (before @ e # after) s =
    upsertEntries fs after
      ((upsertEntries fs before s)
         \<lparr>warnings := warnings (upsertEntries fs before s) @
                       [''  Warning: File not found: '' @ file' e]\<rparr>))"
proof (intro conjI impI)
  show "issued (main newMeta oldMeta changedFiles fs d) =
     concat (map removedStmts (removed_of newMeta oldMeta)) @
     concat (map (upsertStmts fs)
       (filter (\<lambda>e. fs (file' e) \<noteq> None) (toUpsert_of newMeta oldMeta changedFiles))) @
     concat (map (unlinkStmts (mkMap oldMeta)) (questionsModified_of newMeta oldMeta))"
    unfolding issued_main using upsertStmts_readable [of fs] by simp
  show "warnings (main newMeta oldMeta changedFiles fs d) =
     map (\<lambda>e. ''  Warning: File not found: '' @ file' e)
       (filter (\<lambda>e. fs (file' e) = None) (toUpsert_of newMeta oldMeta changedFiles))"
    by (rule warnings_main)
  show "store (main newMeta oldMeta changedFiles fs d) =
     fold exec (issued (main newMeta oldMeta changedFiles fs d)) d"
    by (rule store_main)
  assume "fs (file' e) = None"
  then show "upsertEntries fs (before @ e # after) s =
    upsertEntries fs after
      ((upsertEntries fs before s)
         \<lparr>warnings := warnings (upsertEntries fs before s) @
                       [''  Warning: File not found: '' @ file' e]\<rparr>)"
    by (simp add: upsertEntries_append readFile_def)
qed

lemma ex_issued_missing:
  "concat (map removedStmts (removed_of ex_new ex_old)) @
   concat (map (upsertStmts ex_fs_missing)
     (filter (\<lambda>e. ex_fs_missing (file' e) \<noteq> None) (toUpsert_of ex_new ex_old {''c.md''}))) @
   concat (map (unlinkStmts (mkMap ex_old)) (questionsModified_of ex_new ex_old)) =
   [Unlink ''Q1'' (generateExplanationId ''a.md''),
    Unlink ''Q2'' (generateExplanationId ''a.md''),
    DeleteExplanation (generateExplanationId ''a.md''),
    UpsertExplanation (generateExplanationId ''m.md'') ''M'',
    Link ''Q1'' (generateExplanationId ''m.md''),
    UpsertExplanation (generateExplanationId ''c.md'') ''C'',
    Link ''Q3'' (generateExplanationId ''c.md''),
    Unlink ''Q2'' (generateExplanationId ''m.md'')]"
  by (simp add: toUpsert_of_def ex_removed ex_added ex_modified ex_contentOnly_c
      removedStmts_def upsertStmts_def unlinkStmts_def ex_fs_missing_def)
    (simp add: mkMap_def ex_old_def)

lemma ex_unreadable:
  "filter (\<lambda>e. ex_fs_missing (file' e) = None) (toUpsert_of ex_new ex_old {''c.md''}) =
   [\<lparr>file' = ''b.md'', questions = [''Q4'']\<rparr>]"
  by (simp add: toUpsert_of_def ex_added ex_modified ex_contentOnly_c ex_fs_missing_def)

theorem missing_file_skipped_witness:
  "ex_fs_missing ''b.md'' = None \<and>
   warnings (main ex_new ex_old {''c.md''} ex_fs_missing ex_db) =
     [''  Warning: File not found: b.md''] \<and>
   issued (main ex_new ex_old {''c.md''} ex_fs_missing ex_db) =
     [Unlink ''Q1'' (generateExplanationId ''a.md''),
      Unlink ''Q2'' (generateExplanationId ''a.md''),
      DeleteExplanation (generateExplanationId ''a.md''),
      UpsertExplanation (generateExplanationId ''m.md'') ''M'',
      Link ''Q1'' (generateExplanationId ''m.md''),
      UpsertExplanation (generateExplanationId ''c.md'') ''C'',
      Link ''Q3'' (generateExplanationId ''c.md''),
      Unlink ''Q2'' (generateExplanationId ''m.md'')]"
proof -
  have missing: "ex_fs_missing ''b.md'' = None"
    by (simp add: ex_fs_missing_def)
  note run = missing_file_skipped [of ex_new ex_old "{''c.md''}" ex_fs_missing ex_db
      "\<lparr>file' = ''b.md'', questions = [''Q4'']\<rparr>" "[]" "[]" "initial ex_db"]
  from run have "warnings (main ex_new ex_old {''c.md''} ex_fs_missing ex_db) =
      [''  Warning: File not found: b.md'']"
    by (simp add: ex_unreadable)
  moreover from run have "issued (main ex_new ex_old {''c.md''} ex_fs_missing ex_db) =
     [Unlink ''Q1'' (generateExplanationId ''a.md''),
      Unlink ''Q2'' (generateExplanationId ''a.md''),
      DeleteExplanation (generateExplanationId ''a.md''),
      UpsertExplanation (generateExplanationId ''m.md'') ''M'',
      Link ''Q1'' (generateExplanationId ''m.md''),
      UpsertExplanation (generateExplanationId ''c.md'') ''C'',
      Link ''Q3'' (generateExplanationId ''c.md''),
      Unlink ''Q2'' (generateExplanationId ''m.md'')]"
    by (simp only: ex_issued_missing)
  ultimately show ?thesis using missing by blast
qed

lemma scC_removed: "removed_of scC_new scC_old = []"
  by (simp add: removed_of_def mkMap_def scC_new_def scC_old_def)

lemma scC_added: "added_of scC_new scC_old = []"
  by (simp add: added_of_def mkMap_def scC_new_def scC_old_def)

lemma scC_modified: "questionsModified_of scC_new scC_old = scC_new"
  by (simp add: questionsModified_of_def kept_of_def mkMap_def scC_new_def scC_old_def
      sort_eq_iff_mset)

lemma scC_contentOnly: "contentOnly_of scC_new scC_old changedFiles = []"
  by (simp add: contentOnly_of_def scC_added scC_modified)
    (simp add: scC_new_def scC_old_def kept_of_def mkMap_def)

lemma scC_issued:
  "issued (main scC_new scC_old changedFiles fs d) =
   (case fs ''c.md'' of
      None \<Rightarrow> []
    | Some content \<Rightarrow>
        [UpsertExplanation (generateExplanationId ''c.md'') content,
         Link ''Q1'' (generateExplanationId ''c.md''),
         Link ''Q2'' (generateExplanationId ''c.md'')])"
  by (simp add: issued_main toUpsert_of_def scC_removed scC_added scC_modified scC_contentOnly)
    (simp add: scC_new_def scC_old_def upsertStmts_def unlinkStmts_def mkMap_def
      split: option.splits)

text \<open>
  Claim C6, as stated: in scenario C the plan leaves the link of \<^verbatim>\<open>Q1\<close> untouched. With
  \<^verbatim>\<open>c.md\<close> readable and \<^verbatim>\<open>Q1\<close> without a link in the store, the run issues a link of \<^verbatim>\<open>Q1\<close>
  and sets its link to the derived id of \<^verbatim>\<open>c.md\<close>.
\<close>

theorem scenario_C_relinks_Q1:
  "externalId (question_tbl scC_db ! 0) = ''Q1'' \<and>
   explanationId (question_tbl scC_db ! 0) = None \<and>
   Link ''Q1'' (generateExplanationId ''c.md'') \<in>
     set (issued (main scC_new scC_old {} [''c.md'' \<mapsto> ''text''] scC_db)) \<and>
   explanationId (question_tbl (store (main scC_new scC_old {} [''c.md'' \<mapsto> ''text''] scC_db)) ! 0) =
     Some (generateExplanationId ''c.md'')"
  by (simp add: store_main scC_issued) (simp add: scC_db_def)

text \<open>
  Claim C6, amended: in scenario C the entry is classified linksModified and no other class
  has an entry; if \<^verbatim>\<open>c.md\<close> can be read, the plan is the upsert of its row followed by the
  links of \<^verbatim>\<open>Q1\<close> and of \<^verbatim>\<open>Q2\<close> to the derived id of \<^verbatim>\<open>c.md\<close>; if it cannot, the plan is empty;
  in both cases the plan has no unlink.
\<close>

theorem scenario_C:
  "questionsModified_of scC_new scC_old = scC_new \<and>
   removed_of scC_new scC_old = [] \<and> added_of scC_new scC_old = [] \<and>
   contentOnly_of scC_new scC_old changedFiles = [] \<and>
   (fs ''c.md'' = Some content \<longrightarrow>
      issued (main scC_new scC_old changedFiles fs d) =
        [UpsertExplanation (generateExplanationId ''c.md'') content,
         Link ''Q1'' (generateExplanationId ''c.md''),
         Link ''Q2'' (generateExplanationId ''c.md'')]) \<and>
   (fs ''c.md'' = None \<longrightarrow> issued (main scC_new scC_old changedFiles fs d) = []) \<and>
   (\<forall>q x. Unlink q x \<notin> set (issued (main scC_new scC_old changedFiles fs d)))"
  by (auto simp: scC_removed scC_added scC_modified scC_contentOnly scC_issued
      split: option.splits)

theorem scenario_C_witness:
  "[''c.md'' \<mapsto> ''text''] ''c.md'' = Some ''text'' \<and>
   issued (main scC_new scC_old {} [''c.md'' \<mapsto> ''text''] scC_db) =
     [UpsertExplanation (generateExplanationId ''c.md'') ''text'',
      Link ''Q1'' (generateExplanationId ''c.md''),
      Link ''Q2'' (generateExplanationId ''c.md'')]"
  using scenario_C [of "{}" "[''c.md'' \<mapsto> ''text'']" "''text''" scC_db]
  by simp

text \<open>
  Claim C7, as stated: the row of a linksModified entry is upserted only if its path is among
  the changed paths. On the example manifests with no changed path, the row of the modified
  entry \<^verbatim>\<open>m.md\<close> is upserted.
\<close>

theorem modified_upserted_without_content_change:
  "\<lparr>file' = ''m.md'', questions = [''Q1'']\<rparr> \<in> set (questionsModified_of ex_new ex_old) \<and>
   ''m.md'' \<notin> ({} :: string set) \<and>
   UpsertExplanation (generateExplanationId ''m.md'') ''M'' \<in>
     set (issued (main ex_new ex_old {} ex_fs ex_db))"
  by (simp add: issued_main toUpsert_of_def ex_removed ex_added ex_modified ex_contentOnly_none
      removedStmts_def upsertStmts_def unlinkStmts_def ex_fs_def)

text \<open>
  Claim C7, amended: for every entry classified linksModified, whatever the set of changed
  paths, if its file can be read the plan upserts its row with the file's text and links
  every question of the new list to its derived id; and, readable or not, the plan has a
  scoped unlink for every question of the old list that is not in the new one.
\<close>

theorem links_modified_plan:
  assumes "e \<in> set (questionsModified_of newMeta oldMeta)"
  shows "\<exists>old. mkMap oldMeta (file' e) = Some old \<and>
           (\<forall>content. fs (file' e) = Some content \<longrightarrow>
              UpsertExplanation (generateExplanationId (file' e)) content \<in>
                set (issued (main newMeta oldMeta changedFiles fs d)) \<and>
              (\<forall>q\<in>set (questions e).
                 Link q (generateExplanationId (file' e)) \<in>
                   set (issued (main newMeta oldMeta changedFiles fs d)))) \<and>
           (\<forall>q\<in>set (questions old). q \<notin> set (questions e) \<longrightarrow>
              Unlink q (generateExplanationId (file' e)) \<in>
                set (issued (main newMeta oldMeta changedFiles fs d)))"
proof -
  from assms obtain old where old: "mkMap oldMeta (file' e) = Some old"
    by (auto simp: questionsModified_of_def split: option.splits)
  have up: "set (upsertStmts fs e) \<subseteq> set (issued (main newMeta oldMeta changedFiles fs d))"
    using assms by (auto simp: issued_main toUpsert_of_def)
  have un: "set (unlinkStmts (mkMap oldMeta) e) \<subseteq>
            set (issued (main newMeta oldMeta changedFiles fs d))"
    using assms by (auto simp: issued_main)
  show ?thesis
  proof (intro exI conjI allI impI ballI)
    show "mkMap oldMeta (file' e) = Some old" by (rule old)
  next
    fix content assume "fs (file' e) = Some content"
    then show "UpsertExplanation (generateExplanationId (file' e)) content \<in>
                set (issued (main newMeta oldMeta changedFiles fs d))"
      using up by (auto simp: upsertStmts_def)
  next
    fix content q assume "fs (file' e) = Some content" "q \<in> set (questions e)"
    then show "Link q (generateExplanationId (file' e)) \<in>
                set (issued (main newMeta oldMeta changedFiles fs d))"
      using up by (auto simp: upsertStmts_def)
  next
    fix q assume "q \<in> set (questions old)" "q \<notin> set (questions e)"
    then show "Unlink q (generateExplanationId (file' e)) \<in>
                set (issued (main newMeta oldMeta changedFiles fs d))"
      using un old by (auto simp: unlinkStmts_def)
  qed
qed

theorem links_modified_plan_witness:
  "\<lparr>file' = ''m.md'', questions = [''Q1'']\<rparr> \<in> set (questionsModified_of ex_new ex_old) \<and>
   UpsertExplanation (generateExplanationId ''m.md'') ''M'' \<in>
     set (issued (main ex_new ex_old {} ex_fs ex_db)) \<and>
   Link ''Q1'' (generateExplanationId ''m.md'') \<in>
     set (issued (main ex_new ex_old {} ex_fs ex_db)) \<and>
   Unlink ''Q2'' (generateExplanationId ''m.md'') \<in>
     set (issued (main ex_new ex_old {} ex_fs ex_db))"
proof -
  have m: "\<lparr>file' = ''m.md'', questions = [''Q1'']\<rparr> \<in> set (questionsModified_of ex_new ex_old)"
    by (simp add: ex_modified)
  have old: "mkMap ex_old ''m.md'' = Some \<lparr>file' = ''m.md'', questions = [''Q1'', ''Q2'']\<rparr>"
    by (simp add: mkMap_def ex_old_def)
  have fs: "ex_fs ''m.md'' = Some ''M''"
    by (simp add: ex_fs_def)
  from links_modified_plan [OF m, of ex_fs "{}" ex_db] old fs m show ?thesis
    by auto
qed

section \<open>The full syncs\<close>

lemma issued_linkQuestions_full:
  "issued (linkQuestions_full eid qids s) = issued s @ map (\<lambda>q. Link q eid) qids"
  by (induction qids arbitrary: s) (simp_all add: Let_def run_stmt_def)

lemma store_linkQuestions_full:
  "store (linkQuestions_full eid qids s) = fold exec (map (\<lambda>q. Link q eid) qids) (store s)"
  by (induction qids arbitrary: s) (simp_all add: Let_def run_stmt_def)

lemma issued_syncEntries_full:
  "issued (syncEntries_full ef es s) = issued s @ concat (map (fullStmts ef) es)"
  by (induction es arbitrary: s)
    (simp_all add: Let_def run_stmt_def issued_linkQuestions_full fullStmts_def split: option.splits)

lemma store_syncEntries_full:
  "store (syncEntries_full ef es s) = fold exec (concat (map (fullStmts ef) es)) (store s)"
  by (induction es arbitrary: s)
    (simp_all add: Let_def run_stmt_def store_linkQuestions_full fullStmts_def split: option.splits)

lemma store_main_full:
  "store (main_full explanations meta d) =
   fold exec (concat (map (fullStmts (readExplanationsDir_full [] explanations)) meta)) d"
  by (simp add: main_full_def store_syncEntries_full initial_def)

lemma writes_fullStmts: "list_all is_write (concat (map (fullStmts ef) es))"
  by (induction es) (auto simp: fullStmts_def list_all_iff split: option.splits)

text \<open>Of two writes, the later one either commutes with the earlier one or overwrites it.\<close>

lemma write_same: "is_write x \<Longrightarrow> exec x (exec x d) = exec x d"
  by (cases x) auto

lemma write_twice:
  assumes "is_write x" "is_write y"
  shows "exec y (exec x d) = exec x (exec y d) \<or> exec y (exec x d) = exec y d"
proof (cases x)
  case x: (UpsertExplanation a c)
  show ?thesis
  proof (cases y)
    case y: (UpsertExplanation a' c')
    show ?thesis
    proof (cases "a' = a")
      case True
      with x y show ?thesis by simp
    next
      case False
      with x y show ?thesis by (simp add: fun_upd_twist)
    qed
  qed (use x assms in auto)
next
  case x: (Link q e)
  show ?thesis
  proof (cases y)
    case y: (Link q' e')
    show ?thesis
    proof (cases "q' = q")
      case True
      with x y show ?thesis by auto
    next
      case False
      with x y show ?thesis by auto
    qed
  qed (use x assms in auto)
qed (use assms in auto)

lemma write_absorbed:
  assumes "is_write x" "list_all is_write xs"
  shows "exec x (fold exec xs (exec x d)) = exec x (fold exec xs d)"
  using assms(2)
proof (induction xs arbitrary: d)
  case Nil
  from assms(1) show ?case by (simp add: write_same)
next
  case (Cons y ys)
  then have y: "is_write y" and ys: "list_all is_write ys" by simp_all
  from write_twice [OF assms(1) y, of d] show ?case
  proof
    assume "exec y (exec x d) = exec x (exec y d)"
    then show ?thesis using Cons.IH [OF ys, of "exec y d"] by simp
  next
    assume "exec y (exec x d) = exec y d"
    then show ?thesis by simp
  qed
qed

lemma writes_idempotent:
  "list_all is_write xs \<Longrightarrow> fold exec xs (fold exec xs d) = fold exec xs d"
proof (induction xs arbitrary: d rule: rev_induct)
  case Nil
  show ?case by simp
next
  case (snoc x xs)
  then have x: "is_write x" and xs: "list_all is_write xs" by simp_all
  have "fold exec (xs @ [x]) (fold exec (xs @ [x]) d) =
        exec x (fold exec xs (exec x (fold exec xs d)))" by simp
  also have "\<dots> = exec x (fold exec xs (fold exec xs d))"
    by (rule write_absorbed [OF x xs])
  also have "\<dots> = exec x (fold exec xs d)"
    by (simp add: snoc.IH [OF xs])
  finally show ?case by simp
qed

lemma main_full_idempotent:
  "store (main_full explanations meta (store (main_full explanations meta d))) =
   store (main_full explanations meta d)"
  by (simp add: store_main_full writes_idempotent writes_fullStmts)

lemma touchedIds_Cons:
  "touchedIds qtbl (m # rest) =
   (case resolve qtbl m of None \<Rightarrow> touchedIds qtbl rest | Some q \<Rightarrow> q # touchedIds qtbl rest)"
  by (simp add: touchedIds_def List.map_filter_simps split: option.splits)

lemma touchedIds_Nil: "touchedIds qtbl [] = []"
  by (simp add: touchedIds_def List.map_filter_simps)

lemma insertLinks_tables:
  "explanation_tbl (i_store (insertLinks u ef qid k fs s)) = explanation_tbl (i_store s) \<and>
   question_tbl (i_store (insertLinks u ef qid k fs s)) = question_tbl (i_store s)"
  by (induction fs arbitrary: k s) (simp_all add: Let_def split: option.splits)

lemma insertLinks_links:
  "map link_of (question_to_explanation_tbl (i_store (insertLinks u ef qid k fs s))) =
   map link_of (question_to_explanation_tbl (i_store s)) @ linksFor ef qid k fs"
  by (induction fs arbitrary: k s) (simp_all add: Let_def link_of_def split: option.splits)

lemma fst_linksFor: "t \<in> set (linksFor ef qid k fs) \<Longrightarrow> fst t = qid"
  by (induction fs arbitrary: k) (auto split: option.splits)

lemma replaceLinks_tables:
  "explanation_tbl (i_store (replaceLinks u ef meta s)) = explanation_tbl (i_store s) \<and>
   question_tbl (i_store (replaceLinks u ef meta s)) = question_tbl (i_store s)"
proof (induction meta arbitrary: s)
  case Nil
  show ?case by simp
next
  case (Cons m meta)
  obtain q files where m: "m = (q, files)" by (cases m)
  show ?case
    unfolding m
    by (simp add: Cons.IH Let_def insertLinks_tables split: option.splits)
qed

lemma map_link_of_filter:
  "map link_of (filter (\<lambda>l. l_questionId l \<noteq> qid) rows) =
   filter (\<lambda>t. fst t \<noteq> qid) (map link_of rows)"
  by (induction rows) (simp_all add: link_of_def)

lemma replaceLinks_links:
  "map link_of (question_to_explanation_tbl (i_store (replaceLinks u ef meta s))) =
   filter (\<lambda>t. fst t \<notin> set (touchedIds (question_tbl (i_store s)) meta))
     (map link_of (question_to_explanation_tbl (i_store s))) @
   plannedLinks (question_tbl (i_store s)) ef meta"
proof (induction meta arbitrary: s)
  case Nil
  show ?case by (simp add: touchedIds_Nil)
next
  case (Cons m meta)
  obtain q files where m: "m = (q, files)" by (cases m)
  show ?case
  proof (cases "resolve (question_tbl (i_store s)) m")
    case None
    then show ?thesis
      unfolding m
      by (auto simp: Cons.IH touchedIds_Cons resolve_def split: option.splits)
  next
    case (Some qid)
    then obtain question where
      f: "find (\<lambda>r. externalId r = q) (question_tbl (i_store s)) = Some question"
      and qid: "qid = q_id question" and ne: "length files \<noteq> 0"
      unfolding m by (auto simp: resolve_def split: if_splits)
    show ?thesis
      unfolding m using Some f ne
      by (simp add: m Cons.IH Let_def insertLinks_tables insertLinks_links touchedIds_Cons
          map_link_of_filter qid conj_commute)
  qed
qed

lemma plannedLinks_touched:
  "t \<in> set (plannedLinks qtbl ef meta) \<Longrightarrow> fst t \<in> set (touchedIds qtbl meta)"
  by (induction meta)
    (auto simp: touchedIds_Cons dest: fst_linksFor split: option.splits)

text \<open>Rows of other questions are kept; rows of a replaced question are new.\<close>

lemma insertLinks_rows_kept:
  "qid \<in> T \<Longrightarrow>
   filter (\<lambda>l. l_questionId l \<notin> T)
     (question_to_explanation_tbl (i_store (insertLinks u ef qid k fs s))) =
   filter (\<lambda>l. l_questionId l \<notin> T) (question_to_explanation_tbl (i_store s))"
  by (induction fs arbitrary: k s) (simp_all add: Let_def split: option.splits)

lemma insertLinks_ids:
  "l \<in> set (question_to_explanation_tbl (i_store (insertLinks u ef qid k fs s))) \<Longrightarrow>
   l \<in> set (question_to_explanation_tbl (i_store s)) \<or> l_id l \<in> range u"
proof (induction fs arbitrary: k s)
  case Nil
  then show ?case by simp
next
  case (Cons f fs)
  show ?case
  proof (cases "getContent ef f")
    case None
    let ?s' = "s\<lparr>i_warnings :=
      i_warnings s @ [''Warning: File not found: '' @ f @ '', skipping link'']\<rparr>"
    from Cons.prems None
    have "l \<in> set (question_to_explanation_tbl (i_store (insertLinks u ef qid (k + 1) fs ?s')))"
      by simp
    from Cons.IH [OF this] show ?thesis by simp
  next
    case (Some c)
    let ?row = "\<lparr>l_questionId = qid, l_explanationId = generateExplanationId_insert f,
                 l_order = k, l_id = u (uuidv4_calls s)\<rparr>"
    let ?s' = "s\<lparr>i_store := (i_store s)\<lparr>question_to_explanation_tbl :=
                   question_to_explanation_tbl (i_store s) @ [?row]\<rparr>,
                 uuidv4_calls := uuidv4_calls s + 1,
                 linksInserted := linksInserted s + 1\<rparr>"
    from Cons.prems Some
    have "l \<in> set (question_to_explanation_tbl (i_store (insertLinks u ef qid (k + 1) fs ?s')))"
      by (simp add: Let_def)
    from Cons.IH [OF this] show ?thesis by auto
  qed
qed

lemma replaceLinks_rows_kept:
  "set (touchedIds (question_tbl (i_store s)) meta) \<subseteq> T \<Longrightarrow>
   filter (\<lambda>l. l_questionId l \<notin> T)
     (question_to_explanation_tbl (i_store (replaceLinks u ef meta s))) =
   filter (\<lambda>l. l_questionId l \<notin> T) (question_to_explanation_tbl (i_store s))"
proof (induction meta arbitrary: s)
  case Nil
  show ?case by simp
next
  case (Cons m meta)
  obtain q files where m: "m = (q, files)" by (cases m)
  show ?case
  proof (cases "resolve (question_tbl (i_store s)) m")
    case None
    with Cons.prems have T: "set (touchedIds (question_tbl (i_store s)) meta) \<subseteq> T"
      by (simp add: touchedIds_Cons)
    from None show ?thesis
      unfolding m
      by (auto simp: Cons.IH T resolve_def split: option.splits)
  next
    case (Some qid)
    then obtain question where
      f: "find (\<lambda>r. externalId r = q) (question_tbl (i_store s)) = Some question"
      and qid: "qid = q_id question" and ne: "length files \<noteq> 0"
      unfolding m by (auto simp: resolve_def split: if_splits)
    from Some Cons.prems have T: "set (touchedIds (question_tbl (i_store s)) meta) \<subseteq> T"
      and inT: "q_id question \<in> T"
      by (simp_all add: touchedIds_Cons qid)
    let ?s1 = "s\<lparr>i_store := (i_store s)\<lparr>question_to_explanation_tbl :=
        filter (\<lambda>l. l_questionId l \<noteq> q_id question)
          (question_to_explanation_tbl (i_store s))\<rparr>\<rparr>"
    let ?s2 = "insertLinks u ef (q_id question) 0 files ?s1"
    have q2: "question_tbl (i_store ?s2) = question_tbl (i_store s)"
      by (simp add: insertLinks_tables)
    have "filter (\<lambda>l. l_questionId l \<notin> T)
            (question_to_explanation_tbl (i_store (replaceLinks u ef meta ?s2))) =
          filter (\<lambda>l. l_questionId l \<notin> T) (question_to_explanation_tbl (i_store ?s2))"
      by (rule Cons.IH) (simp add: q2 T)
    also have "\<dots> = filter (\<lambda>l. l_questionId l \<notin> T) (question_to_explanation_tbl (i_store ?s1))"
      by (rule insertLinks_rows_kept [OF inT])
    also have "\<dots> = filter (\<lambda>l. l_questionId l \<notin> T) (question_to_explanation_tbl (i_store s))"
      using inT by (auto intro: filter_cong)
    finally show ?thesis
      unfolding m using f ne by (simp add: Let_def)
  qed
qed

lemma replaceLinks_ids:
  "l \<in> set (question_to_explanation_tbl (i_store (replaceLinks u ef meta s))) \<Longrightarrow>
   l_questionId l \<in> set (touchedIds (question_tbl (i_store s)) meta) \<Longrightarrow>
   l_id l \<in> range u"
proof (induction meta arbitrary: s)
  case Nil
  then show ?case by (simp add: touchedIds_Nil)
next
  case (Cons m meta)
  obtain q files where m: "m = (q, files)" by (cases m)
  show ?case
  proof (cases "resolve (question_tbl (i_store s)) m")
    case None
    with Cons.prems(2) have t: "l_questionId l \<in> set (touchedIds (question_tbl (i_store s)) meta)"
      by (simp add: touchedIds_Cons)
    from None Cons.prems(1) have
      "l \<in> set (question_to_explanation_tbl (i_store (replaceLinks u ef meta s))) \<or>
       (\<exists>s'. i_store s' = i_store s \<and>
          l \<in> set (question_to_explanation_tbl (i_store (replaceLinks u ef meta s'))))"
      unfolding m by (auto simp: resolve_def split: option.splits if_splits)
    then show ?thesis
      using Cons.IH t by metis
  next
    case (Some qid)
    then obtain question where
      f: "find (\<lambda>r. externalId r = q) (question_tbl (i_store s)) = Some question"
      and qid: "qid = q_id question" and ne: "length files \<noteq> 0"
      unfolding m by (auto simp: resolve_def split: if_splits)
    let ?s1 = "s\<lparr>i_store := (i_store s)\<lparr>question_to_explanation_tbl :=
        filter (\<lambda>l. l_questionId l \<noteq> q_id question)
          (question_to_explanation_tbl (i_store s))\<rparr>\<rparr>"
    let ?s2 = "insertLinks u ef (q_id question) 0 files ?s1"
    have q2: "question_tbl (i_store ?s2) = question_tbl (i_store s)"
      by (simp add: insertLinks_tables)
    from Cons.prems(1) f ne have fin:
      "l \<in> set (question_to_explanation_tbl (i_store (replaceLinks u ef meta ?s2)))"
      unfolding m by (simp add: Let_def)
    show ?thesis
    proof (cases "l_questionId l \<in> set (touchedIds (question_tbl (i_store s)) meta)")
      case True
      with Cons.IH [OF fin] q2 show ?thesis by simp
    next
      case False
      with Cons.prems(2) Some have lq: "l_questionId l = q_id question"
        by (simp add: touchedIds_Cons qid)
      from False fin
      have "l \<in> set (filter (\<lambda>l. l_questionId l \<notin> set (touchedIds (question_tbl (i_store s)) meta))
              (question_to_explanation_tbl (i_store (replaceLinks u ef meta ?s2))))"
        by simp
      then have "l \<in> set (filter (\<lambda>l. l_questionId l \<notin> set (touchedIds (question_tbl (i_store s)) meta))
              (question_to_explanation_tbl (i_store ?s2)))"
        using replaceLinks_rows_kept [of ?s2 meta "set (touchedIds (question_tbl (i_store s)) meta)" u ef]
        by (simp add: q2)
      then have "l \<in> set (question_to_explanation_tbl (i_store ?s2))" by simp
      from insertLinks_ids [OF this] lq show ?thesis by auto
    qed
  qed
qed

lemma store_upsertUnique:
  "i_store (upsertUnique ef fs s) = fold exec (uniqueStmts ef fs) (i_store s)"
  by (induction fs arbitrary: s) (simp_all add: uniqueStmts_def split: option.splits)

lemma writes_uniqueStmts: "list_all is_write (uniqueStmts ef fs)"
  by (induction fs) (auto simp: uniqueStmts_def split: option.splits)

lemma uniqueStmts_tables:
  "question_tbl (fold exec (uniqueStmts ef fs) d) = question_tbl d \<and>
   question_to_explanation_tbl (fold exec (uniqueStmts ef fs) d) = question_to_explanation_tbl d"
  by (induction fs arbitrary: d) (auto simp: uniqueStmts_def split: option.splits)

lemma explanation_tbl_cong:
  "explanation_tbl x = explanation_tbl y \<Longrightarrow>
   explanation_tbl (fold exec stmts x) = explanation_tbl (fold exec stmts y)"
proof (induction stmts arbitrary: x y)
  case Nil
  then show ?case by simp
next
  case (Cons st stmts)
  from Cons.prems have "explanation_tbl (exec st x) = explanation_tbl (exec st y)"
    by (cases st) simp_all
  then have "explanation_tbl (fold exec stmts (exec st x)) =
             explanation_tbl (fold exec stmts (exec st y))"
    by (rule Cons.IH)
  then show ?case by simp
qed

lemma main_insert_explanations:
  "explanation_tbl (i_store (main_insert u explanations meta d)) =
   explanation_tbl (fold exec (uniqueStmts (readExplanationsDir_insert [] explanations)
                                 (unique (concat (map snd meta)))) d)"
  by (simp add: main_insert_def Let_def replaceLinks_tables store_upsertUnique initial_insert_def)

lemma main_insert_questions:
  "question_tbl (i_store (main_insert u explanations meta d)) = question_tbl d"
  by (simp add: main_insert_def Let_def replaceLinks_tables store_upsertUnique
      initial_insert_def uniqueStmts_tables)

lemma main_insert_links:
  "map link_of (question_to_explanation_tbl (i_store (main_insert u explanations meta d))) =
   filter (\<lambda>t. fst t \<notin> set (touchedIds (question_tbl d) meta))
     (map link_of (question_to_explanation_tbl d)) @
   plannedLinks (question_tbl d) (readExplanationsDir_insert [] explanations) meta"
  by (simp add: main_insert_def Let_def replaceLinks_links store_upsertUnique
      initial_insert_def uniqueStmts_tables)

lemma main_insert_rows_kept:
  "filter (\<lambda>l. l_questionId l \<notin> set (touchedIds (question_tbl d) meta))
     (question_to_explanation_tbl (i_store (main_insert u explanations meta d))) =
   filter (\<lambda>l. l_questionId l \<notin> set (touchedIds (question_tbl d) meta))
     (question_to_explanation_tbl d)"
  by (simp add: main_insert_def Let_def replaceLinks_rows_kept store_upsertUnique
      initial_insert_def uniqueStmts_tables)

lemma main_insert_ids:
  assumes "l \<in> set (question_to_explanation_tbl (i_store (main_insert u explanations meta d)))"
    and "l_questionId l \<in> set (touchedIds (question_tbl d) meta)"
  shows "l_id l \<in> range u"
proof -
  let ?s = "upsertUnique (readExplanationsDir_insert [] explanations)
              (unique (concat (map snd meta))) (initial_insert d)"
  have q: "question_tbl (i_store ?s) = question_tbl d"
    by (simp add: store_upsertUnique initial_insert_def uniqueStmts_tables)
  from assms(1) have
    "l \<in> set (question_to_explanation_tbl
       (i_store (replaceLinks u (readExplanationsDir_insert [] explanations) meta ?s)))"
    by (simp add: main_insert_def Let_def)
  then show ?thesis
    by (rule replaceLinks_ids) (simp add: q assms(2))
qed

lemma main_insert_idempotent:
  "explanation_tbl (i_store (main_insert u2 explanations meta
      (i_store (main_insert u1 explanations meta d)))) =
   explanation_tbl (i_store (main_insert u1 explanations meta d)) \<and>
   question_tbl (i_store (main_insert u2 explanations meta
      (i_store (main_insert u1 explanations meta d)))) =
   question_tbl (i_store (main_insert u1 explanations meta d)) \<and>
   map link_of (question_to_explanation_tbl (i_store (main_insert u2 explanations meta
      (i_store (main_insert u1 explanations meta d))))) =
   map link_of (question_to_explanation_tbl (i_store (main_insert u1 explanations meta d)))"
proof (intro conjI)
  let ?J = "uniqueStmts (readExplanationsDir_insert [] explanations)
              (unique (concat (map snd meta)))"
  let ?d1 = "i_store (main_insert u1 explanations meta d)"
  have "explanation_tbl (fold exec ?J ?d1) = explanation_tbl (fold exec ?J (fold exec ?J d))"
    by (rule explanation_tbl_cong) (rule main_insert_explanations)
  also have "\<dots> = explanation_tbl (fold exec ?J d)"
    by (simp add: writes_idempotent writes_uniqueStmts)
  finally show "explanation_tbl (i_store (main_insert u2 explanations meta ?d1)) =
      explanation_tbl ?d1"
    by (simp add: main_insert_explanations)
  show "question_tbl (i_store (main_insert u2 explanations meta ?d1)) = question_tbl ?d1"
    by (simp add: main_insert_questions)
  let ?T = "set (touchedIds (question_tbl d) meta)"
  let ?P = "plannedLinks (question_tbl d) (readExplanationsDir_insert [] explanations) meta"
  have P: "filter (\<lambda>t. fst t \<notin> ?T) ?P = []"
    by (auto simp: filter_empty_conv dest: plannedLinks_touched)
  show "map link_of (question_to_explanation_tbl (i_store (main_insert u2 explanations meta ?d1))) =
      map link_of (question_to_explanation_tbl ?d1)"
    by (simp add: main_insert_links main_insert_questions P)
qed

lemma ex_explanationFiles:
  "getContent (readExplanationsDir_insert [] ex_dir) ''a.md'' = Some ''A'' \<and>
   getContent (readExplanationsDir_insert [] ex_dir) ''gone.md'' = None \<and>
   getContent (readExplanationsDir_insert [] ex_dir) ''d/y.md'' = Some ''text''"
  by (simp add: getContent_def ex_dir_def endsWith_def joinRel_def map_add_def)

lemma ex_unique: "unique (concat (map snd ex_meta)) = [''a.md'', ''gone.md'', ''d/y.md'']"
  by (simp add: unique_def ex_meta_def)

lemma ex_run_links:
  "question_tbl d = question_tbl ex_qdb \<Longrightarrow>
   question_to_explanation_tbl (i_store (main_insert u ex_dir ex_meta d)) =
   filter (\<lambda>l. l_questionId l \<noteq> ''1'') (question_to_explanation_tbl d) @
   [\<lparr>l_questionId = ''1'', l_explanationId = generateExplanationId_insert ''a.md'',
     l_order = 0, l_id = u 0\<rparr>,
    \<lparr>l_questionId = ''1'', l_explanationId = generateExplanationId_insert ''d/y.md'',
     l_order = 2, l_id = u 1\<rparr>]"
  by (simp add: main_insert_def Let_def ex_unique ex_explanationFiles initial_insert_def)
    (simp add: ex_meta_def ex_explanationFiles ex_qdb_def Let_def)

text \<open>
  Claim C4, as stated: after a second full resync the store is identical to the store after
  the first, in both variants. In the ordered variant the links of a question are deleted
  and inserted again, each with a fresh \<^verbatim>\<open>uuidv4()\<close> as its \<^verbatim>\<open>id\<close>: with the values of the two
  runs different, the join table after the second run is not the one after the first.
\<close>

theorem link_ids_change_on_resync:
  "question_to_explanation_tbl (i_store (main_insert ex_uuidv4_a ex_dir ex_meta ex_qdb)) =
     [\<lparr>l_questionId = ''1'', l_explanationId = generateExplanationId_insert ''a.md'',
       l_order = 0, l_id = ''aaaaaaaa-0000-4000-8000-000000000000''\<rparr>,
      \<lparr>l_questionId = ''1'', l_explanationId = generateExplanationId_insert ''d/y.md'',
       l_order = 2, l_id = ''aaaaaaaa-0000-4000-8000-000000000001''\<rparr>] \<and>
   question_to_explanation_tbl
     (i_store (main_insert ex_uuidv4_b ex_dir ex_meta
        (i_store (main_insert ex_uuidv4_a ex_dir ex_meta ex_qdb)))) =
     [\<lparr>l_questionId = ''1'', l_explanationId = generateExplanationId_insert ''a.md'',
       l_order = 0, l_id = ''bbbbbbbb-0000-4000-8000-000000000000''\<rparr>,
      \<lparr>l_questionId = ''1'', l_explanationId = generateExplanationId_insert ''d/y.md'',
       l_order = 2, l_id = ''bbbbbbbb-0000-4000-8000-000000000001''\<rparr>] \<and>
   i_store (main_insert ex_uuidv4_b ex_dir ex_meta
      (i_store (main_insert ex_uuidv4_a ex_dir ex_meta ex_qdb))) \<noteq>
   i_store (main_insert ex_uuidv4_a ex_dir ex_meta ex_qdb)"
proof -
  have a: "question_to_explanation_tbl (i_store (main_insert ex_uuidv4_a ex_dir ex_meta ex_qdb)) =
     [\<lparr>l_questionId = ''1'', l_explanationId = generateExplanationId_insert ''a.md'',
       l_order = 0, l_id = ''aaaaaaaa-0000-4000-8000-000000000000''\<rparr>,
      \<lparr>l_questionId = ''1'', l_explanationId = generateExplanationId_insert ''d/y.md'',
       l_order = 2, l_id = ''aaaaaaaa-0000-4000-8000-000000000001''\<rparr>]"
    by (simp add: ex_run_links) (simp add: ex_qdb_def ex_uuidv4_a_def hexDigit_def)
  have b: "question_to_explanation_tbl
     (i_store (main_insert ex_uuidv4_b ex_dir ex_meta
        (i_store (main_insert ex_uuidv4_a ex_dir ex_meta ex_qdb)))) =
     [\<lparr>l_questionId = ''1'', l_explanationId = generateExplanationId_insert ''a.md'',
       l_order = 0, l_id = ''bbbbbbbb-0000-4000-8000-000000000000''\<rparr>,
      \<lparr>l_questionId = ''1'', l_explanationId = generateExplanationId_insert ''d/y.md'',
       l_order = 2, l_id = ''bbbbbbbb-0000-4000-8000-000000000001''\<rparr>]"
    by (simp add: ex_run_links main_insert_questions a) (simp add: ex_uuidv4_b_def hexDigit_def)
  from a b have "question_to_explanation_tbl
     (i_store (main_insert ex_uuidv4_b ex_dir ex_meta
        (i_store (main_insert ex_uuidv4_a ex_dir ex_meta ex_qdb)))) \<noteq>
     question_to_explanation_tbl (i_store (main_insert ex_uuidv4_a ex_dir ex_meta ex_qdb))"
    by simp
  then have "i_store (main_insert ex_uuidv4_b ex_dir ex_meta
      (i_store (main_insert ex_uuidv4_a ex_dir ex_meta ex_qdb))) \<noteq>
      i_store (main_insert ex_uuidv4_a ex_dir ex_meta ex_qdb)"
    by auto
  with a b show ?thesis by blast
qed

text \<open>
  Claim C4, amended: the single-link full sync is idempotent, the store after the second
  run is the store after the first. In the ordered variant, whatever values \<^verbatim>\<open>uuidv4()\<close>
  returns in the two runs, the explanation rows and the question rows after the second
  run are those after the first, and the join table has the same rows in the same number
  once the \<^verbatim>\<open>id\<close> of each row is left out; the rows of the questions the run does not
  replace (those no key of the manifest with a non-empty list resolves to) are kept as
  they are, \<^verbatim>\<open>id\<close> included; and every row of a replaced question has as \<^verbatim>\<open>id\<close> a value that
  \<^verbatim>\<open>uuidv4()\<close> returned in the second run.
\<close>

theorem full_resync_idempotent:
  "store (main_full explanations meta (store (main_full explanations meta d))) =
     store (main_full explanations meta d) \<and>
   explanation_tbl (i_store (main_insert u2 explanations qmeta
      (i_store (main_insert u1 explanations qmeta d)))) =
     explanation_tbl (i_store (main_insert u1 explanations qmeta d)) \<and>
   question_tbl (i_store (main_insert u2 explanations qmeta
      (i_store (main_insert u1 explanations qmeta d)))) =
     question_tbl (i_store (main_insert u1 explanations qmeta d)) \<and>
   map link_of (question_to_explanation_tbl (i_store (main_insert u2 explanations qmeta
      (i_store (main_insert u1 explanations qmeta d))))) =
     map link_of (question_to_explanation_tbl (i_store (main_insert u1 explanations qmeta d))) \<and>
   length (question_to_explanation_tbl (i_store (main_insert u2 explanations qmeta
      (i_store (main_insert u1 explanations qmeta d))))) =
     length (question_to_explanation_tbl (i_store (main_insert u1 explanations qmeta d))) \<and>
   filter (\<lambda>l. l_questionId l \<notin> set (touchedIds (question_tbl d) qmeta))
     (question_to_explanation_tbl (i_store (main_insert u2 explanations qmeta
        (i_store (main_insert u1 explanations qmeta d))))) =
   filter (\<lambda>l. l_questionId l \<notin> set (touchedIds (question_tbl d) qmeta))
     (question_to_explanation_tbl (i_store (main_insert u1 explanations qmeta d))) \<and>
   (\<forall>l\<in>set (question_to_explanation_tbl (i_store (main_insert u2 explanations qmeta
        (i_store (main_insert u1 explanations qmeta d))))).
      l_questionId l \<in> set (touchedIds (question_tbl d) qmeta) \<longrightarrow> l_id l \<in> range u2)"
proof -
  let ?d1 = "i_store (main_insert u1 explanations qmeta d)"
  let ?d2 = "i_store (main_insert u2 explanations qmeta ?d1)"
  note ord = main_insert_idempotent [of u2 explanations qmeta u1 d]
  from ord have len: "length (question_to_explanation_tbl ?d2) =
     length (question_to_explanation_tbl ?d1)"
    by (blast dest: map_eq_imp_length_eq)
  have q1: "question_tbl ?d1 = question_tbl d"
    by (rule main_insert_questions)
  have kept: "filter (\<lambda>l. l_questionId l \<notin> set (touchedIds (question_tbl d) qmeta))
       (question_to_explanation_tbl ?d2) =
     filter (\<lambda>l. l_questionId l \<notin> set (touchedIds (question_tbl d) qmeta))
       (question_to_explanation_tbl ?d1)"
    using main_insert_rows_kept [of ?d1 qmeta u2 explanations] by (simp add: q1)
  have ids: "\<forall>l\<in>set (question_to_explanation_tbl ?d2).
      l_questionId l \<in> set (touchedIds (question_tbl d) qmeta) \<longrightarrow> l_id l \<in> range u2"
    using main_insert_ids [of _ u2 explanations qmeta ?d1] by (simp add: q1)
  from ord len kept ids main_full_idempotent [of explanations meta d] show ?thesis
    by blast
qed

theorem full_resync_idempotent_witness:
  "question_to_explanation_tbl (i_store (main_insert ex_uuidv4_b ex_dir ex_meta
      (i_store (main_insert ex_uuidv4_a ex_dir ex_meta ex_qdb_linked)))) ! 0 =
     \<lparr>l_questionId = ''2'', l_explanationId = ''E'', l_order = 5, l_id = ''L2''\<rparr> \<and>
   map link_of (question_to_explanation_tbl (i_store (main_insert ex_uuidv4_b ex_dir ex_meta
      (i_store (main_insert ex_uuidv4_a ex_dir ex_meta ex_qdb_linked))))) =
   [(''2'', ''E'', 5),
    (''1'', generateExplanationId_insert ''a.md'', 0),
    (''1'', generateExplanationId_insert ''d/y.md'', 2)]"
proof -
  have q: "question_tbl ex_qdb_linked = question_tbl ex_qdb"
    by (simp add: ex_qdb_linked_def)
  have one: "question_to_explanation_tbl (i_store (main_insert ex_uuidv4_a ex_dir ex_meta ex_qdb_linked)) =
     [\<lparr>l_questionId = ''2'', l_explanationId = ''E'', l_order = 5, l_id = ''L2''\<rparr>,
      \<lparr>l_questionId = ''1'', l_explanationId = generateExplanationId_insert ''a.md'',
        l_order = 0, l_id = ex_uuidv4_a 0\<rparr>,
      \<lparr>l_questionId = ''1'', l_explanationId = generateExplanationId_insert ''d/y.md'',
        l_order = 2, l_id = ex_uuidv4_a 1\<rparr>]"
    by (simp add: ex_run_links [OF q]) (simp add: ex_qdb_linked_def)
  have two: "question_to_explanation_tbl (i_store (main_insert ex_uuidv4_b ex_dir ex_meta
      (i_store (main_insert ex_uuidv4_a ex_dir ex_meta ex_qdb_linked)))) ! 0 =
     \<lparr>l_questionId = ''2'', l_explanationId = ''E'', l_order = 5, l_id = ''L2''\<rparr>"
    by (simp add: ex_run_links main_insert_questions q one)
  from one have "map link_of (question_to_explanation_tbl
        (i_store (main_insert ex_uuidv4_a ex_dir ex_meta ex_qdb_linked))) =
     [(''2'', ''E'', 5),
      (''1'', generateExplanationId_insert ''a.md'', 0),
      (''1'', generateExplanationId_insert ''d/y.md'', 2)]"
    by (simp add: link_of_def)
  with full_resync_idempotent [of ex_dir "[]" ex_qdb_linked ex_uuidv4_b ex_meta ex_uuidv4_a]
  have "map link_of (question_to_explanation_tbl (i_store (main_insert ex_uuidv4_b ex_dir ex_meta
      (i_store (main_insert ex_uuidv4_a ex_dir ex_meta ex_qdb_linked))))) =
   [(''2'', ''E'', 5),
    (''1'', generateExplanationId_insert ''a.md'', 0),
    (''1'', generateExplanationId_insert ''d/y.md'', 2)]"
    by simp
  with two show ?thesis by blast
qed

lemma linksFor_positions:
  "linksFor ef qid k files =
   concat (map (\<lambda>i. if getContent ef (files ! i) \<noteq> None
                     then [(qid, generateExplanationId_insert (files ! i), k + i)] else [])
             [0..<length files])"
proof (induction files arbitrary: k)
  case Nil
  show ?case by simp
next
  case (Cons f files)
  have upt: "[0..<length (f # files)] = 0 # map Suc [0..<length files]"
    by (simp add: upt_conv_Cons map_Suc_upt del: upt_Suc)
  show ?case
    unfolding upt
    by (auto simp: Cons.IH comp_def split: option.splits cong: if_cong)
qed

lemma resolve_Some:
  "resolve qtbl m = Some a \<Longrightarrow>
   \<exists>r\<in>set qtbl. externalId r = fst m \<and> q_id r = a"
  by (auto simp: resolve_def find_Some_iff split: if_splits)

lemma resolve_inj:
  assumes "distinct (map fst meta)" "distinct (map q_id qtbl)"
    and "m \<in> set meta" "m' \<in> set meta"
    and "resolve qtbl m = Some a" "resolve qtbl m' = Some a"
  shows "m = m'"
proof -
  from assms(5) obtain r where r: "r \<in> set qtbl" "externalId r = fst m" "q_id r = a"
    by (blast dest: resolve_Some)
  from assms(6) obtain r' where r': "r' \<in> set qtbl" "externalId r' = fst m'" "q_id r' = a"
    by (blast dest: resolve_Some)
  from assms(2) have "inj_on q_id (set qtbl)" by (simp add: distinct_map)
  with r r' have "r = r'" by (auto dest: inj_onD)
  with r r' have "fst m = fst m'" by simp
  moreover from assms(1) have "inj_on fst (set meta)" by (simp add: distinct_map)
  ultimately show ?thesis using assms(3,4) by (auto dest: inj_onD)
qed

lemma set_touchedIds: "set (touchedIds qtbl meta) = {a. \<exists>m\<in>set meta. resolve qtbl m = Some a}"
  by (induction meta) (auto simp: touchedIds_Nil touchedIds_Cons split: option.splits)

lemma plannedLinks_question:
  assumes "distinct (map fst meta)" "distinct (map q_id qtbl)"
    and "m0 \<in> set meta" "resolve qtbl m0 = Some qid"
  shows "filter (\<lambda>t. fst t = qid) (plannedLinks qtbl ef meta) = linksFor ef qid 0 (snd m0)"
  using assms(1,3)
proof (induction meta)
  case Nil
  then show ?case by simp
next
  case (Cons m rest)
  from Cons.prems have dr: "distinct (map fst rest)" and mr: "m \<notin> set rest"
    by auto
  have inj: "x = y" if "x \<in> set (m # rest)" "y \<in> set (m # rest)"
    "resolve qtbl x = Some a" "resolve qtbl y = Some a" for x y a
    using resolve_inj [OF Cons.prems(1) assms(2) that] .
  show ?case
  proof (cases "m = m0")
    case True
    have nt: "qid \<notin> set (touchedIds qtbl rest)"
    proof
      assume "qid \<in> set (touchedIds qtbl rest)"
      then obtain m' where m': "m' \<in> set rest" "resolve qtbl m' = Some qid"
        by (auto simp: set_touchedIds)
      with inj [of m' m0 qid] True assms(4) have "m' = m0" by simp
      with m' mr True show False by simp
    qed
    have 1: "filter (\<lambda>t. fst t = qid)
               (filter (\<lambda>t. fst t \<notin> set (touchedIds qtbl rest)) (linksFor ef qid 0 (snd m0))) =
             linksFor ef qid 0 (snd m0)"
      using nt by (auto simp: filter_id_conv dest: fst_linksFor)
    have 2: "filter (\<lambda>t. fst t = qid) (plannedLinks qtbl ef rest) = []"
      using nt by (auto simp: filter_empty_conv dest: plannedLinks_touched)
    from True assms(4) 1 2 show ?thesis by simp
  next
    case False
    with Cons.prems have m0: "m0 \<in> set rest" by simp
    have IH: "filter (\<lambda>t. fst t = qid) (plannedLinks qtbl ef rest) = linksFor ef qid 0 (snd m0)"
      by (rule Cons.IH [OF dr m0])
    show ?thesis
    proof (cases "resolve qtbl m")
      case None
      with IH show ?thesis by simp
    next
      case (Some a)
      have "a \<noteq> qid"
      proof
        assume "a = qid"
        with Some assms(4) inj [of m m0 qid] m0 have "m = m0" by simp
        with False show False by simp
      qed
      then have "filter (\<lambda>t. fst t = qid)
                   (filter (\<lambda>t. fst t \<notin> set (touchedIds qtbl rest)) (linksFor ef a 0 (snd m))) = []"
        by (auto simp: filter_empty_conv dest: fst_linksFor)
      with Some IH show ?thesis by simp
    qed
  qed
qed

lemma filter_link_of:
  "map link_of (filter (\<lambda>l. l_questionId l = qid) rows) =
   filter (\<lambda>t. fst t = qid) (map link_of rows)"
  by (induction rows) (simp_all add: link_of_def)

lemma question_links:
  assumes "distinct (map fst meta)" "distinct (map q_id (question_tbl d))"
    and "(q, files) \<in> set meta" "files \<noteq> []"
    and "find (\<lambda>r. externalId r = q) (question_tbl d) = Some question"
  shows "map link_of (filter (\<lambda>l. l_questionId l = q_id question)
           (question_to_explanation_tbl (i_store (main_insert u explanations meta d)))) =
         linksFor (readExplanationsDir_insert [] explanations) (q_id question) 0 files"
proof -
  from assms(4,5) have res: "resolve (question_tbl d) (q, files) = Some (q_id question)"
    by (simp add: resolve_def)
  with assms(3) have t: "q_id question \<in> set (touchedIds (question_tbl d) meta)"
    by (auto simp: set_touchedIds)
  have "filter (\<lambda>t. fst t = q_id question)
          (filter (\<lambda>t. fst t \<notin> set (touchedIds (question_tbl d) meta))
             (map link_of (question_to_explanation_tbl d))) = []"
    using t by (auto simp: filter_empty_conv)
  with plannedLinks_question [OF assms(1,2,3) res] show ?thesis
    by (simp add: filter_link_of main_insert_links)
qed

lemma linksFor_ge: "t \<in> set (linksFor ef qid k files) \<Longrightarrow> k \<le> snd (snd t)"
  by (induction files arbitrary: k) (auto split: option.splits dest: Suc_leD)

lemma linksFor_increasing: "sorted_wrt (<) (map (\<lambda>t. snd (snd t)) (linksFor ef qid k files))"
  by (induction files arbitrary: k) (auto split: option.splits dest!: linksFor_ge)

lemma linksFor_all_found:
  "\<forall>f\<in>set files. getContent ef f \<noteq> None \<Longrightarrow>
   map (\<lambda>t. snd (snd t)) (linksFor ef qid k files) = [k..<k + length files]"
proof (induction files arbitrary: k)
  case Nil
  show ?case by simp
next
  case (Cons f files)
  have upt: "[k..<k + length (f # files)] = k # [Suc k..<Suc k + length files]"
    by (subst upt_rec) simp
  from Cons.prems obtain content where "getContent ef f = Some content"
    by auto
  moreover from Cons.prems have "\<forall>f\<in>set files. getContent ef f \<noteq> None"
    by simp
  ultimately show ?case
    unfolding upt using Cons.IH [of "Suc k"] by simp
qed

lemma l_order_link_of: "map l_order rows = map (\<lambda>t. snd (snd t)) (map link_of rows)"
  by (simp add: link_of_def)

text \<open>
  Claim C9, as stated: after a sync the order values of a question's links match the
  manifest's sequence with no gaps. For a manifest that lists three files for \<^verbatim>\<open>Q1\<close>, the
  second of which is not in the content directory, the stored order values are 0 and 2.
\<close>

theorem order_gap_at_missing_file:
  "snd (ex_meta ! 0) = [''a.md'', ''gone.md'', ''d/y.md''] \<and>
   map l_questionId
     (question_to_explanation_tbl (i_store (main_insert ex_uuidv4_a ex_dir ex_meta ex_qdb))) =
     [''1'', ''1''] \<and>
   map l_order
     (question_to_explanation_tbl (i_store (main_insert ex_uuidv4_a ex_dir ex_meta ex_qdb))) =
     [0, 2]"
  by (simp add: ex_run_links) (simp add: ex_meta_def ex_qdb_def)

text \<open>
  Claim C9, amended: after a sync, for every key of the manifest with a non-empty list that
  resolves to a question of the store (the keys of the manifest pairwise distinct, as those
  of an object are, and the ids of the question rows pairwise distinct), the stored links of
  that question are exactly one per file of its list that has a non-empty content, in the
  manifest's order, each with the derived id of the file and, as order, the position of
  the file in the manifest's list. So the order values are strictly increasing, without
  duplicates; a position whose file has no content is left out; and when every file has
  one the order values are \<open>0, \<dots>, n - 1\<close>.
\<close>

theorem ordered_links:
  assumes "distinct (map fst meta)" and "distinct (map q_id (question_tbl d))"
    and "(q, files) \<in> set meta" and "files \<noteq> []"
    and "find (\<lambda>r. externalId r = q) (question_tbl d) = Some question"
  shows "map link_of (filter (\<lambda>l. l_questionId l = q_id question)
           (question_to_explanation_tbl (i_store (main_insert u explanations meta d)))) =
         [(q_id question, generateExplanationId_insert (files ! i), i).
            i \<leftarrow> [0..<length files],
            getContent (readExplanationsDir_insert [] explanations) (files ! i) \<noteq> None] \<and>
         sorted_wrt (<) (map l_order (filter (\<lambda>l. l_questionId l = q_id question)
           (question_to_explanation_tbl (i_store (main_insert u explanations meta d))))) \<and>
         ((\<forall>f\<in>set files. getContent (readExplanationsDir_insert [] explanations) f \<noteq> None) \<longrightarrow>
          map l_order (filter (\<lambda>l. l_questionId l = q_id question)
            (question_to_explanation_tbl (i_store (main_insert u explanations meta d)))) =
          [0..<length files])"
proof -
  let ?ef = "readExplanationsDir_insert [] explanations"
  let ?rows = "filter (\<lambda>l. l_questionId l = q_id question)
     (question_to_explanation_tbl (i_store (main_insert u explanations meta d)))"
  have links: "map link_of ?rows = linksFor ?ef (q_id question) 0 files"
    by (rule question_links [OF assms])
  have 1: "map link_of ?rows =
         [(q_id question, generateExplanationId_insert (files ! i), i).
            i \<leftarrow> [0..<length files], getContent ?ef (files ! i) \<noteq> None]"
    unfolding links by (simp add: linksFor_positions cong: if_cong)
  have ord: "map l_order ?rows = map (\<lambda>t. snd (snd t)) (linksFor ?ef (q_id question) 0 files)"
    unfolding l_order_link_of [of ?rows] links ..
  have 2: "sorted_wrt (<) (map l_order ?rows)"
    unfolding ord by (rule linksFor_increasing)
  have 3: "map l_order ?rows = [0..<length files]"
    if "\<forall>f\<in>set files. getContent ?ef f \<noteq> None"
    unfolding ord using linksFor_all_found [OF that, of "q_id question" 0] by simp
  from 1 2 3 show ?thesis by blast
qed

theorem ordered_links_witness:
  "distinct (map fst ex_meta) \<and> distinct (map q_id (question_tbl ex_qdb)) \<and>
   (''Q1'', [''a.md'', ''gone.md'', ''d/y.md'']) \<in> set ex_meta \<and>
   find (\<lambda>r. externalId r = ''Q1'') (question_tbl ex_qdb) =
     Some \<lparr>q_id = ''1'', externalId = ''Q1'', explanationId = None\<rparr> \<and>
   map link_of (filter (\<lambda>l. l_questionId l = ''1'')
     (question_to_explanation_tbl (i_store (main_insert ex_uuidv4_a ex_dir ex_meta ex_qdb)))) =
   [(''1'', generateExplanationId_insert ''a.md'', 0),
    (''1'', generateExplanationId_insert ''d/y.md'', 2)]"
proof -
  have a: "distinct (map fst ex_meta)" by (simp add: ex_meta_def)
  have b: "distinct (map q_id (question_tbl ex_qdb))" by (simp add: ex_qdb_def)
  have c: "(''Q1'', [''a.md'', ''gone.md'', ''d/y.md'']) \<in> set ex_meta" by (simp add: ex_meta_def)
  have e: "[''a.md'', ''gone.md'', ''d/y.md''] \<noteq> []" by simp
  have f: "find (\<lambda>r. externalId r = ''Q1'') (question_tbl ex_qdb) =
     Some \<lparr>q_id = ''1'', externalId = ''Q1'', explanationId = None\<rparr>"
    by (simp add: ex_qdb_def)
  have upt: "[0..<3] = [0, 1, 2]" by (simp add: upt_rec)
  from ordered_links [OF a b c e f, of ex_uuidv4_a ex_dir]
  have "map link_of (filter (\<lambda>l. l_questionId l = ''1'')
     (question_to_explanation_tbl (i_store (main_insert ex_uuidv4_a ex_dir ex_meta ex_qdb)))) =
   [(''1'', generateExplanationId_insert ''a.md'', 0),
    (''1'', generateExplanationId_insert ''d/y.md'', 2)]"
    by (simp add: upt ex_explanationFiles)
  with a b c f show ?thesis by blast
qed

section \<open>The content directory of the ordered sync\<close>

lemma endsWith_append: "endsWith name suffix \<Longrightarrow> endsWith (pre @ name) suffix"
  by (auto simp: endsWith_def)

lemma endsWith_joinRel: "endsWith name suffix \<Longrightarrow> endsWith (joinRel rel name) suffix"
  using endsWith_append [of name suffix "rel @ ''/''"] by (simp add: joinRel_def)

lemma endsWith_last: "endsWith s suffix \<Longrightarrow> suffix \<noteq> [] \<Longrightarrow> last s = last suffix"
  by (metis append_take_drop_id endsWith_def last_appendR)

lemma md_not_svg: "endsWith s ''.md'' \<Longrightarrow> \<not> endsWith s ''.svg''"
  using endsWith_last [of s "''.md''"] endsWith_last [of s "''.svg''"] by auto

lemma readExplanationsDir_insert_Some:
  "readExplanationsDir_insert rel entries p = Some content \<Longrightarrow>
   endsWith p ''.md'' \<or> endsWith p ''.svg'' \<and> content = svgReference p"
proof (induction rel entries arbitrary: content rule: readExplanationsDir_insert.induct)
  case (1 rel)
  then show ?case by simp
next
  case (2 rel name children rest)
  then show ?case by (auto simp: map_add_Some_iff)
next
  case (3 rel name body rest)
  then show ?case
    by (auto simp: map_add_Some_iff endsWith_joinRel split: if_splits)
qed

lemma set_unique_aux:
  "set (foldl (\<lambda>acc x. if x \<in> set acc then acc else acc @ [x]) acc xs) = set acc \<union> set xs"
  by (induction xs arbitrary: acc) auto

lemma set_unique: "set (unique xs) = set xs"
  by (simp add: unique_def set_unique_aux)

lemma explanation_uniqueStmts:
  assumes "\<forall>f\<in>set fs. generateExplanationId_insert f = k \<longrightarrow> getContent ef f = Some c"
  shows "explanation_tbl (fold exec (uniqueStmts ef fs) d) k =
         (if \<exists>f\<in>set fs. generateExplanationId_insert f = k then Some c else explanation_tbl d k)"
  using assms
proof (induction fs arbitrary: d)
  case Nil
  show ?case by (simp add: uniqueStmts_def)
next
  case (Cons f fs)
  from Cons.prems have rest: "\<forall>f\<in>set fs. generateExplanationId_insert f = k \<longrightarrow> getContent ef f = Some c"
    by simp
  have split: "uniqueStmts ef (f # fs) = uniqueStmts ef [f] @ uniqueStmts ef fs"
    by (simp add: uniqueStmts_def)
  show ?case
  proof (cases "getContent ef f")
    case None
    with Cons.prems have "generateExplanationId_insert f \<noteq> k" by auto
    with None show ?thesis
      unfolding split by (simp add: Cons.IH [OF rest]) (simp add: uniqueStmts_def)
  next
    case (Some c')
    show ?thesis
    proof (cases "generateExplanationId_insert f = k")
      case True
      with Cons.prems Some have "c' = c" by simp
      with True Some show ?thesis
        unfolding split by (simp add: Cons.IH [OF rest]) (simp add: uniqueStmts_def)
    next
      case False
      with Some show ?thesis
        unfolding split by (simp add: Cons.IH [OF rest]) (simp add: uniqueStmts_def)
    qed
  qed
qed

lemma main_insert_row:
  assumes "getContent (readExplanationsDir_insert [] explanations) p = Some c"
    and "p \<in> set (concat (map snd meta))"
    and "\<forall>p'\<in>set (concat (map snd meta)).
           generateExplanationId_insert p' = generateExplanationId_insert p \<longrightarrow> p' = p"
  shows "explanation_tbl (i_store (main_insert u explanations meta d))
           (generateExplanationId_insert p) = Some c"
proof -
  let ?fs = "unique (concat (map snd meta))"
  let ?ef = "readExplanationsDir_insert [] explanations"
  have a: "\<forall>f\<in>set ?fs. generateExplanationId_insert f = generateExplanationId_insert p \<longrightarrow>
             getContent ?ef f = Some c"
    using assms(1,3) by (auto simp: set_unique)
  have b: "\<exists>f\<in>set ?fs. generateExplanationId_insert f = generateExplanationId_insert p"
    using assms(2) unfolding set_unique by blast
  show ?thesis
    unfolding main_insert_explanations explanation_uniqueStmts [OF a] using b by simp
qed

lemma svgReference_nonempty: "svgReference p \<noteq> []"
  by (simp add: svgReference_def)

lemma ex_encoded: "encodeURIComponent ''d/w.svg'' = ''d%2Fw.svg''"
  by (simp add: encodeURIComponent_def uriUnreserved_def hexUpper_def)

lemma ex_reference:
  "''![]('' @ SVGS_BASE_URL @ encodeURIComponent ''d/w.svg'' @ '')'' =
   ''![](https://raw.githubusercontent.com/fmkra/pplka-explanations/refs/heads/feat/profil-skrzydla/explanations/d%2Fw.svg)''"
  by (simp add: ex_encoded SVGS_BASE_URL_def)

lemma ex_dir_w: "readExplanationsDir_insert [] ex_dir ''d/w.svg'' = Some (svgReference ''d/w.svg'')"
  by (simp add: ex_dir_def endsWith_def joinRel_def map_add_def)

lemma ex_dir_z: "readExplanationsDir_insert [] ex_dir ''d/z.png'' = None"
  by (simp add: ex_dir_def endsWith_def joinRel_def map_add_def)

text \<open>
  Claim C10: in the ordered full sync, every path loaded from the content directory ends in
  \<^verbatim>\<open>.md\<close> or in \<^verbatim>\<open>.svg\<close>; and for a path that ends in \<^verbatim>\<open>.svg\<close> the content is not read from
  the file: it is the markdown image reference to the fixed raw URL followed by the
  encoded path, and this reference is what the explanation row of the path holds, after
  the upsert of the path and, when the path is listed in the manifest and no other listed
  path has the same derived id, after the whole run.
\<close>

theorem svg_reference_stored:
  assumes "readExplanationsDir_insert rel entries p = Some content"
  shows "(endsWith p ''.md'' \<or> endsWith p ''.svg'') \<and>
         (endsWith p ''.svg'' \<longrightarrow>
            content = ''![]('' @ SVGS_BASE_URL @ encodeURIComponent p @ '')'' \<and>
            explanation_tbl (i_store (upsertUnique (readExplanationsDir_insert rel entries) [p] s))
              (generateExplanationId_insert p) =
              Some (''![]('' @ SVGS_BASE_URL @ encodeURIComponent p @ '')'') \<and>
            (rel = [] \<and> p \<in> set (concat (map snd meta)) \<and>
             (\<forall>p'\<in>set (concat (map snd meta)).
                generateExplanationId_insert p' = generateExplanationId_insert p \<longrightarrow> p' = p) \<longrightarrow>
             explanation_tbl (i_store (main_insert u entries meta d))
               (generateExplanationId_insert p) =
               Some (''![]('' @ SVGS_BASE_URL @ encodeURIComponent p @ '')'')))"
proof -
  from readExplanationsDir_insert_Some [OF assms]
  have c: "endsWith p ''.md'' \<or> endsWith p ''.svg'' \<and> content = svgReference p" .
  have ref: "svgReference p = ''![]('' @ SVGS_BASE_URL @ encodeURIComponent p @ '')''"
    by (simp add: svgReference_def)
  show ?thesis
  proof (intro conjI impI)
    from c show "endsWith p ''.md'' \<or> endsWith p ''.svg''" by blast
  next
    assume "endsWith p ''.svg''"
    with c md_not_svg have "content = svgReference p" by blast
    then show "content = ''![]('' @ SVGS_BASE_URL @ encodeURIComponent p @ '')''"
      by (simp add: ref)
  next
    assume "endsWith p ''.svg''"
    with c md_not_svg have "content = svgReference p" by blast
    with assms have "getContent (readExplanationsDir_insert rel entries) p = Some (svgReference p)"
      by (simp add: getContent_def svgReference_nonempty)
    then show "explanation_tbl (i_store (upsertUnique (readExplanationsDir_insert rel entries) [p] s))
              (generateExplanationId_insert p) =
              Some (''![]('' @ SVGS_BASE_URL @ encodeURIComponent p @ '')'')"
      by (simp add: ref)
  next
    assume svg: "endsWith p ''.svg''"
    assume h: "rel = [] \<and> p \<in> set (concat (map snd meta)) \<and>
             (\<forall>p'\<in>set (concat (map snd meta)).
                generateExplanationId_insert p' = generateExplanationId_insert p \<longrightarrow> p' = p)"
    from svg c md_not_svg have "content = svgReference p" by blast
    with assms h have g: "getContent (readExplanationsDir_insert [] entries) p = Some (svgReference p)"
      by (simp add: getContent_def svgReference_nonempty)
    from h have in_meta: "p \<in> set (concat (map snd meta))"
      and only: "\<forall>p'\<in>set (concat (map snd meta)).
                generateExplanationId_insert p' = generateExplanationId_insert p \<longrightarrow> p' = p"
      by blast+
    from main_insert_row [OF g in_meta only]
    show "explanation_tbl (i_store (main_insert u entries meta d))
               (generateExplanationId_insert p) =
               Some (''![]('' @ SVGS_BASE_URL @ encodeURIComponent p @ '')'')"
      by (simp add: ref)
  qed
qed

theorem svg_reference_stored_witness:
  "readExplanationsDir_insert [] ex_dir ''d/w.svg'' = Some (svgReference ''d/w.svg'') \<and>
   endsWith ''d/w.svg'' ''.svg'' \<and>
   explanation_tbl (i_store (main_insert ex_uuidv4_a ex_dir [(''Q1'', [''d/w.svg''])] ex_qdb))
     (generateExplanationId_insert ''d/w.svg'') =
   Some (''![](https://raw.githubusercontent.com/fmkra/pplka-explanations/refs/heads/'' @
         ''feat/profil-skrzydla/explanations/d%2Fw.svg)'')"
proof -
  have e: "endsWith ''d/w.svg'' ''.svg''" by (simp add: endsWith_def)
  from svg_reference_stored [OF ex_dir_w, of s "[(''Q1'', [''d/w.svg''])]" ex_uuidv4_a ex_qdb] e
  have "explanation_tbl (i_store (main_insert ex_uuidv4_a ex_dir [(''Q1'', [''d/w.svg''])] ex_qdb))
     (generateExplanationId_insert ''d/w.svg'') =
     Some (''![]('' @ SVGS_BASE_URL @ encodeURIComponent ''d/w.svg'' @ '')'')"
    by simp
  then have "explanation_tbl (i_store (main_insert ex_uuidv4_a ex_dir [(''Q1'', [''d/w.svg''])] ex_qdb))
     (generateExplanationId_insert ''d/w.svg'') =
     Some ''![](https://raw.githubusercontent.com/fmkra/pplka-explanations/refs/heads/feat/profil-skrzydla/explanations/d%2Fw.svg)''"
    by (simp only: ex_reference)
  with ex_dir_w e show ?thesis by simp
qed

end
